theory Spec2Isabelle
  imports Main
begin

section \<open>Strings and the regular expressions of the CSP injector\<close>

text \<open>
  A JavaScript string is modelled as a \<^typ>\<open>string\<close>: one \<^typ>\<open>char\<close> stands for one
  code unit (the code units below 256). The functions of \<^verbatim>\<open>pages/[id]/index.tsx\<close> only
  ever distinguish ASCII characters, every other code unit is treated alike.

  The three regular expressions of the injector are sequences of single-character
  atoms, each taken once, or under a greedy \<^verbatim>\<open>*\<close> or \<^verbatim>\<open>+\<close>. All of them carry the
  \<^verbatim>\<open>i\<close> flag, so a literal character is compared after canonicalisation. All literal
  characters of the expressions are ASCII, and without the \<^verbatim>\<open>u\<close> flag a non-ASCII code unit
  never canonicalises to an ASCII one: \<open>canon\<close> gives the code of the upper-case letter
  for an ASCII letter and leaves every other code unit alone.
\<close>

definition canon :: "char \<Rightarrow> nat" where
  "canon c =
     (if 97 \<le> (of_char c :: nat) \<and> (of_char c :: nat) \<le> 122 then of_char c - 32
      else of_char c)"

datatype atom = Ci char | NotGt | Quote

fun ok :: "atom \<Rightarrow> char \<Rightarrow> bool" where
  "ok (Ci p) c = (canon c = canon p)"
| "ok NotGt c = (c \<noteq> CHR ''>'')"
| "ok Quote c = (c = CHR 0x22 \<or> c = CHR 0x27)"

datatype item = One atom | Star atom | Plus atom

text \<open>
  The backtracking matcher, anchored at the start of the input: the length of the match
  the engine finds first, or \<open>None\<close>. A greedy quantifier takes as many characters as it
  can and gives them back one at a time: \<open>orElse\<close> is the second alternative, tried when
  the first one fails.
\<close>

definition orElse :: "'a option \<Rightarrow> 'a option \<Rightarrow> 'a option" where
  "orElse x y = (case x of Some v \<Rightarrow> Some v | None \<Rightarrow> y)"

fun matchItems :: "item list \<Rightarrow> string \<Rightarrow> nat option" where
  "matchItems [] s = Some 0"
| "matchItems (One a # r) [] = None"
| "matchItems (One a # r) (c # cs) =
     (if ok a c then map_option Suc (matchItems r cs) else None)"
| "matchItems (Star a # r) [] = matchItems r []"
| "matchItems (Star a # r) (c # cs) =
     (if ok a c
      then orElse (map_option Suc (matchItems (Star a # r) cs)) (matchItems r (c # cs))
      else matchItems r (c # cs))"
| "matchItems (Plus a # r) [] = None"
| "matchItems (Plus a # r) (c # cs) =
     (if ok a c then map_option Suc (matchItems (Star a # r) cs) else None)"

text \<open>\<^verbatim>\<open>RegExp.prototype.exec\<close> without the \<^verbatim>\<open>g\<close> flag: the leftmost position with a match,
  and the length of the match there.\<close>

fun exec :: "item list \<Rightarrow> string \<Rightarrow> (nat \<times> nat) option" where
  "exec re [] = map_option (Pair 0) (matchItems re [])"
| "exec re (c # cs) =
     (case matchItems re (c # cs) of
        Some n \<Rightarrow> Some (0, n)
      | None \<Rightarrow> map_option (\<lambda>(i, n). (Suc i, n)) (exec re cs))"

definition test :: "item list \<Rightarrow> string \<Rightarrow> bool" where
  "test re s = (exec re s \<noteq> None)"

definition lit :: "string \<Rightarrow> item list" where
  "lit s = map (\<lambda>c. One (Ci c)) s"

text \<open>\<^verbatim>\<open>/<head([^>]*)>/i\<close>, \<^verbatim>\<open>/<html([^>]*)>/i\<close> and the CSP detector
  \<^verbatim>\<open>/<meta[^>]+http-equiv=["']Content-Security-Policy["'][^>]*>/i\<close>.\<close>

definition headRe :: "item list" where
  "headRe = lit ''<head'' @ [Star NotGt, One (Ci CHR ''>'')]"

definition htmlRe :: "item list" where
  "htmlRe = lit ''<html'' @ [Star NotGt, One (Ci CHR ''>'')]"

definition cspRegex :: "item list" where
  "cspRegex = lit ''<meta'' @ [Plus NotGt] @ lit ''http-equiv='' @ [One Quote]
     @ lit ''Content-Security-Policy'' @ [One Quote] @ [Star NotGt, One (Ci CHR ''>'')]"

subsection \<open>Replacement strings\<close>

definition isDigit :: "char \<Rightarrow> bool" where
  "isDigit c = (48 \<le> (of_char c :: nat) \<and> (of_char c :: nat) \<le> 57)"

definition digitVal :: "char \<Rightarrow> nat" where
  "digitVal c = of_char c - 48"

definition capture :: "string list \<Rightarrow> nat \<Rightarrow> string" where
  "capture caps i = caps ! (i - 1)"

text \<open>
  \<^verbatim>\<open>String.prototype.replace\<close> with a string as replacement expands the patterns
  \<^verbatim>\<open>$$\<close>, \<^verbatim>\<open>$&\<close>, \<^verbatim>\<open>$`\<close>, \<^verbatim>\<open>$'\<close>, \<^verbatim>\<open>$n\<close> and \<^verbatim>\<open>$nn\<close> in it (GetSubstitution of ECMA-262;
  none of the expressions here has a named group, so \<^verbatim>\<open>$<\<close> stays as it is).
  \<open>dollarPattern\<close> reads the template behind a \<^verbatim>\<open>$\<close>: it gives the text the pattern
  stands for and how many characters behind the \<^verbatim>\<open>$\<close> belong to the pattern (none when
  the \<^verbatim>\<open>$\<close> starts no pattern and stays as it is). A two-digit index beyond the number
  of captures is read as a one-digit index followed by a digit. The arguments are the
  matched text, the text before and after it, the captures and the template;
  \<open>capture\<close> is only called with \<open>1 \<le> i \<le> length caps\<close>.
\<close>

definition oneDigit :: "string list \<Rightarrow> char \<Rightarrow> string \<times> nat" where
  "oneDigit caps d =
     (if 1 \<le> digitVal d \<and> digitVal d \<le> length caps
      then (capture caps (digitVal d), 1)
      else ([CHR ''$'', d], 1))"

definition dollarPattern :: "string \<Rightarrow> string \<Rightarrow> string \<Rightarrow> string list \<Rightarrow> string \<Rightarrow> string \<times> nat" where
  "dollarPattern m pre post caps t =
     (case t of
        [] \<Rightarrow> (''$'', 0)
      | d # r \<Rightarrow>
          if d = CHR ''$'' then (''$'', 1)
          else if d = CHR ''&'' then (m, 1)
          else if d = CHR 0x60 then (pre, 1)
          else if d = CHR 0x27 then (post, 1)
          else if isDigit d then
            (case r of
               [] \<Rightarrow> oneDigit caps d
             | e # r' \<Rightarrow>
                 if isDigit e \<and> 10 * digitVal d + digitVal e \<le> length caps
                 then (if 1 \<le> 10 * digitVal d + digitVal e
                       then (capture caps (10 * digitVal d + digitVal e), 2)
                       else ([CHR ''$'', d, e], 2))
                 else oneDigit caps d)
          else (''$'', 0))"

fun getSubstitution :: "string \<Rightarrow> string \<Rightarrow> string \<Rightarrow> string list \<Rightarrow> string \<Rightarrow> string" where
  "getSubstitution m pre post caps [] = []"
| "getSubstitution m pre post caps (c # t) =
     (if c = CHR ''$''
      then (case dollarPattern m pre post caps t of
              (out, k) \<Rightarrow> out @ getSubstitution m pre post caps (drop k t))
      else c # getSubstitution m pre post caps t)"

text \<open>
  \<open>html.replace(re, template)\<close> for an expression without the \<^verbatim>\<open>g\<close> flag: the first
  match is replaced by the expanded template, a string without a match is returned as it
  is. \<open>caps\<close> computes the captures from the matched text.
\<close>

definition replaceFirst :: "item list \<Rightarrow> (string \<Rightarrow> string list) \<Rightarrow> string \<Rightarrow> string \<Rightarrow> string" where
  "replaceFirst re caps template s =
     (case exec re s of
        None \<Rightarrow> s
      | Some (i, n) \<Rightarrow>
          take i s
          @ getSubstitution (take n (drop i s)) (take i s) (drop (i + n) s)
              (caps (take n (drop i s))) template
          @ drop (i + n) s)"

text \<open>The one group of \<^verbatim>\<open>/<head([^>]*)>/i\<close> and \<^verbatim>\<open>/<html([^>]*)>/i\<close>: the matched text
  without its first five characters and without the closing \<^verbatim>\<open>>\<close>.\<close>

definition tagCaptures :: "string \<Rightarrow> string list" where
  "tagCaptures m = [butlast (drop 5 m)]"

definition noCaptures :: "string \<Rightarrow> string list" where
  "noCaptures m = []"

text \<open>\<open>value.replace(/c/g, rep)\<close> for a single character \<open>c\<close> and a replacement without
  \<^verbatim>\<open>$\<close>.\<close>

definition replaceAllChar :: "char \<Rightarrow> string \<Rightarrow> string \<Rightarrow> string" where
  "replaceAllChar c rep s = concat (map (\<lambda>x. if x = c then rep else [x]) s)"


section \<open>The CSP injector\<close>

definition DEFAULT_SANDBOX :: string where
  "DEFAULT_SANDBOX = ''allow-scripts allow-same-origin''"

definition DEFAULT_CSP :: string where
  "DEFAULT_CSP = ''default-src 'none'; script-src 'self' 'unsafe-inline' 'unsafe-eval' blob:; style-src 'self' 'unsafe-inline' blob:; img-src 'self' data: blob:; font-src 'self' data: blob:; connect-src *; media-src 'self' data: blob:; frame-src *; object-src 'none'; base-uri 'self'; form-action 'none'' @ [CHR 0x27]"

definition escapeHtmlAttr :: "string \<Rightarrow> string" where
  "escapeHtmlAttr v =
     replaceAllChar CHR ''>'' ''&gt;''
       (replaceAllChar CHR ''<'' ''&lt;''
          (replaceAllChar CHR 0x22 ''&quot;''
             (replaceAllChar CHR ''&'' ''&amp;'' v)))"

definition nl :: string where
  "nl = [CHR 0x0A]"

definition injectIntoHead :: "string \<Rightarrow> string \<Rightarrow> string" where
  "injectIntoHead html headContent =
     (if headContent = [] then html
      else if test headRe html
        then replaceFirst headRe tagCaptures (''<head$1>'' @ nl @ headContent @ nl) html
      else if test htmlRe html
        then replaceFirst htmlRe tagCaptures
               (''<html$1>'' @ nl @ ''<head>'' @ nl @ headContent @ nl @ ''</head>'') html
      else ''<head>'' @ nl @ headContent @ nl @ ''</head>'' @ nl @ html)"

definition metaTag :: "string \<Rightarrow> string" where
  "metaTag csp =
     ''<meta http-equiv='' @ [CHR 0x22] @ ''Content-Security-Policy'' @ [CHR 0x22]
       @ '' content='' @ [CHR 0x22] @ escapeHtmlAttr csp @ [CHR 0x22] @ ''>''"

definition ensureCspMeta :: "string \<Rightarrow> string \<Rightarrow> bool \<Rightarrow> string" where
  "ensureCspMeta html csp overwrite =
     (if html = [] \<or> csp = [] then html
      else if test cspRegex html \<and> \<not> overwrite then html
      else if test cspRegex html \<and> overwrite
        then replaceFirst cspRegex noCaptures (metaTag csp) html
      else injectIntoHead html (metaTag csp))"

section \<open>The cache of the session\<close>

text \<open>
  \<^verbatim>\<open>encodeURIComponent\<close> on code units below 256: the unreserved characters stay, an ASCII
  character becomes one escaped octet and a code unit from 128 on the two escaped octets
  of its UTF-8 encoding. (It throws only on a lone surrogate, which is no such code unit.)
\<close>

definition hexDigit :: "nat \<Rightarrow> char" where
  "hexDigit n = ''0123456789ABCDEF'' ! n"

definition percent :: "nat \<Rightarrow> string" where
  "percent b = [CHR ''%'', hexDigit (b div 16), hexDigit (b mod 16)]"

definition unreserved :: "char \<Rightarrow> bool" where
  "unreserved c =
     (c \<in> set ''ABCDEFGHIJKLMNOPQRSTUVWXYZabcdefghijklmnopqrstuvwxyz0123456789-_.!~*()''
      \<or> c = CHR 0x27)"

definition encodeChar :: "char \<Rightarrow> string" where
  "encodeChar c =
     (if unreserved c then [c]
      else if (of_char c :: nat) < 128 then percent (of_char c)
      else percent (192 + of_char c div 64) @ percent (128 + of_char c mod 64))"

definition encodeURIComponent :: "string \<Rightarrow> string" where
  "encodeURIComponent s = concat (map encodeChar s)"

definition CACHE_ENDPOINT_BASE :: string where
  "CACHE_ENDPOINT_BASE = ''/api/cache''"

definition encodeCacheKey :: "string \<Rightarrow> string" where
  "encodeCacheKey key = encodeURIComponent (encodeURIComponent key)"

text \<open>The optional \<open>namespace\<close> argument is \<open>None\<close> when it is left out; the empty string
  is falsy as well.\<close>

definition buildCachePath :: "string \<Rightarrow> string option \<Rightarrow> string" where
  "buildCachePath key namespace =
     (let namespacedKey =
        (case namespace of
           Some ns \<Rightarrow> if ns \<noteq> [] then ns @ ''::'' @ key else key
         | None \<Rightarrow> key)
      in CACHE_ENDPOINT_BASE @ ''/'' @ encodeCacheKey namespacedKey)"

text \<open>A call of \<^verbatim>\<open>fetch\<close>, and what comes back: the promise is rejected, or a response
  arrives with its status and its body text (\<open>None\<close> when reading the text fails).\<close>

datatype fetchCall = GET string | POST string string

datatype fetchOutcome = FetchRejected | FetchResponse nat "string option"

definition responseOk :: "nat \<Rightarrow> bool" where
  "responseOk status = (200 \<le> status \<and> status \<le> 299)"

section \<open>The session\<close>

text \<open>
  The values a message can carry in the fields the session reads. \<open>JObj\<close> stands for any
  object or array (none of which has a \<^verbatim>\<open>replace\<close> method); numbers are kept to the
  integers.
\<close>

datatype jsval = JUndefined | JNull | JBool bool | JNum int | JStr string | JObj

fun truthy :: "jsval \<Rightarrow> bool" where
  "truthy JUndefined = False"
| "truthy JNull = False"
| "truthy (JBool b) = b"
| "truthy (JNum n) = (n \<noteq> 0)"
| "truthy (JStr s) = (s \<noteq> [])"
| "truthy JObj = True"

datatype jsError = TypeError

text \<open>
  The data of a message event: its \<^verbatim>\<open>method\<close>, the four fields of \<^verbatim>\<open>params\<close> that the session
  reads (\<open>JUndefined\<close> when the field, \<^verbatim>\<open>params\<close> or the data itself is missing) and the rest
  of the data, which the session only passes on.
\<close>

record message =
  rpcMethod :: jsval
  paramsHtml :: jsval
  paramsSandbox :: jsval
  paramsResource :: jsval
  paramsCsp :: jsval
  payload :: nat

datatype source = Inner | Parent | Elsewhere

text \<open>What the page gets from the router: the path parameter, the \<^verbatim>\<open>url\<close> query parameter
  (\<open>None\<close> when it is not a string) and the \<^verbatim>\<open>noCache\<close> flag; and whether the environment
  has \<^verbatim>\<open>fetch\<close>.\<close>

record config =
  flowId :: "string option"
  resourceUrl :: "string option"
  noCacheParam :: bool
  fetchAvailable :: bool

definition cacheNamespace :: "config \<Rightarrow> string" where
  "cacheNamespace cfg =
     (case flowId cfg of Some f \<Rightarrow> if f \<noteq> [] then f else ''default'' | None \<Rightarrow> ''default'')"

definition namespacedKey :: "config \<Rightarrow> string option" where
  "namespacedKey cfg =
     (case resourceUrl cfg of
        Some r \<Rightarrow> if r \<noteq> [] then Some (cacheNamespace cfg @ ''::'' @ r) else None
      | None \<Rightarrow> None)"

text \<open>
  The state of one mounted session: the attributes of the inner iframe (\<open>contentWindow\<close>
  tells whether it has a window, which it has while it is in the document), the
  variables of the effect, the pending timeouts (handle and due time) with the clock,
  the messages posted to the inner window and to the parent, the module-level
  \<^verbatim>\<open>htmlCache\<close> and the calls of \<^verbatim>\<open>fetch\<close> made so far.
\<close>

record session =
  sandboxAttr :: string
  srcdoc :: "string option"
  contentWindow :: bool
  innerReady :: bool
  pendingMessages :: "message list"
  flushTimeout :: "nat option"
  timers :: "(nat \<times> nat) list"
  nextTimer :: nat
  clock :: nat
  toInner :: "message list"
  toParent :: "message list"
  htmlCache :: "string \<rightharpoonup> string"
  requests :: "fetchCall list"

definition initialSession :: session where
  "initialSession =
     \<lparr> sandboxAttr = DEFAULT_SANDBOX, srcdoc = None, contentWindow = True,
       innerReady = False, pendingMessages = [], flushTimeout = None,
       timers = [], nextTimer = 1, clock = 0, toInner = [], toParent = [],
       htmlCache = Map.empty, requests = [] \<rparr>"

definition forwardToInner :: "message \<Rightarrow> session \<Rightarrow> session" where
  "forwardToInner data s =
     (if innerReady s \<and> contentWindow s
      then s\<lparr>toInner := toInner s @ [data]\<rparr>
      else s\<lparr>pendingMessages := pendingMessages s @ [data]\<rparr>)"

text \<open>The loop of \<open>flushPendingMessages\<close>: the queue is shifted empty, each message
  posted in turn. The result is the list of messages posted to the inner window.\<close>

fun drainQueue :: "message list \<Rightarrow> message list \<Rightarrow> message list" where
  "drainQueue [] posted = posted"
| "drainQueue (msg # queue) posted = drainQueue queue (posted @ [msg])"

definition flushPendingMessages :: "session \<Rightarrow> session" where
  "flushPendingMessages s =
     (if \<not> contentWindow s then s
      else s\<lparr>innerReady := True,
             toInner := drainQueue (pendingMessages s) (toInner s),
             pendingMessages := []\<rparr>)"

text \<open>The \<^verbatim>\<open>load\<close> listener of the inner iframe starts the fallback timeout of 500 ms; its
  callback flushes unless the inner document has signalled that it is ready.\<close>

definition innerLoad :: "session \<Rightarrow> session" where
  "innerLoad s =
     s\<lparr>timers := timers s @ [(nextTimer s, clock s + 500)],
       flushTimeout := Some (nextTimer s),
       nextTimer := Suc (nextTimer s)\<rparr>"

definition timeoutCallback :: "session \<Rightarrow> session" where
  "timeoutCallback s = (if \<not> innerReady s then flushPendingMessages s else s)"

definition clearTimeout :: "nat \<Rightarrow> session \<Rightarrow> session" where
  "clearTimeout h s = s\<lparr>timers := filter (\<lambda>(h', due). h' \<noteq> h) (timers s)\<rparr>"

text \<open>Time passes: the timeouts that are due are taken off the list and their callbacks
  run, oldest first.\<close>

definition elapse :: "nat \<Rightarrow> session \<Rightarrow> session" where
  "elapse dt s =
     (let t = clock s + dt;
          due = filter (\<lambda>(h, d). d \<le> t) (timers s);
          s' = s\<lparr>clock := t, timers := filter (\<lambda>(h, d). \<not> d \<le> t) (timers s)\<rparr>
      in fold (\<lambda>_. timeoutCallback) due s')"

text \<open>\<^verbatim>\<open>String.prototype.trim\<close> on code units below 256.\<close>

definition isWhiteSpace :: "char \<Rightarrow> bool" where
  "isWhiteSpace c = ((of_char c :: nat) \<in> {9, 10, 11, 12, 13, 32, 160})"

definition trim :: "string \<Rightarrow> string" where
  "trim s = rev (dropWhile isWhiteSpace (rev (dropWhile isWhiteSpace s)))"

text \<open>\<open>ensureCspMeta\<close> as the handler calls it, with whatever the message carries as CSP
  value: a truthy value that is no string has no \<^verbatim>\<open>replace\<close> method, and
  \<open>escapeHtmlAttr\<close> throws.\<close>

definition ensureCspMetaAny :: "string \<Rightarrow> jsval \<Rightarrow> bool \<Rightarrow> jsError + string" where
  "ensureCspMetaAny html csp overwrite =
     (if html = [] \<or> \<not> truthy csp then Inr html
      else (case csp of
              JStr c \<Rightarrow> Inr (ensureCspMeta html c overwrite)
            | _ \<Rightarrow> Inl TypeError))"

definition setCachedHtml :: "string \<Rightarrow> string \<Rightarrow> session \<Rightarrow> session" where
  "setCachedHtml key html s = s\<lparr>htmlCache := (htmlCache s)(key \<mapsto> html)\<rparr>"

definition getCachedHtml :: "string \<Rightarrow> session \<Rightarrow> string option" where
  "getCachedHtml key s = htmlCache s key"

text \<open>\<open>persistCachedHtmlToApi\<close> is not awaited and swallows every failure: all the
  session sees of it is the call of \<^verbatim>\<open>fetch\<close>.\<close>

definition persistCachedHtmlToApi :: "config \<Rightarrow> string \<Rightarrow> string \<Rightarrow> string option \<Rightarrow> session \<Rightarrow> session" where
  "persistCachedHtmlToApi cfg key html namespace s =
     (if \<not> fetchAvailable cfg then s
      else s\<lparr>requests := requests s @ [POST (buildCachePath key namespace) html]\<rparr>)"

definition CLIENT_READY :: string where
  "CLIENT_READY = ''ui/notifications/client-ready''"

definition SANDBOX_RESOURCE_READY :: string where
  "SANDBOX_RESOURCE_READY = ''ui/notifications/sandbox-resource-ready''"

text \<open>The branch of \<open>handleMessage\<close> for \<^verbatim>\<open>sandbox-resource-ready\<close>. The second component
  is the exception that ends the handler, if any; the state is the one reached by then.\<close>

definition resourceReady :: "config \<Rightarrow> message \<Rightarrow> session \<Rightarrow> session \<times> jsError option" where
  "resourceReady cfg data s =
     (let sandboxValue =
            (case paramsSandbox data of
               JStr sb \<Rightarrow> if trim sb \<noteq> [] then sb else DEFAULT_SANDBOX
             | _ \<Rightarrow> DEFAULT_SANDBOX);
          s1 = s\<lparr>sandboxAttr := sandboxValue\<rparr>
      in (case paramsHtml data of
            JStr html \<Rightarrow>
              (let effectiveCsp =
                     (if truthy (paramsCsp data) then paramsCsp data else JStr DEFAULT_CSP)
               in (case ensureCspMetaAny html effectiveCsp True of
                     Inl e \<Rightarrow> (s1, Some e)
                   | Inr safeHtml \<Rightarrow>
                       (let s2 = s1\<lparr>innerReady := False, srcdoc := Some safeHtml\<rparr>;
                            resourceForCache =
                              (case paramsResource data of
                                 JStr r \<Rightarrow> Some r
                               | _ \<Rightarrow> resourceUrl cfg)
                        in (case resourceForCache of
                              Some r \<Rightarrow>
                                if r \<noteq> []
                                then (persistCachedHtmlToApi cfg r safeHtml (Some (cacheNamespace cfg))
                                        (setCachedHtml (cacheNamespace cfg @ ''::'' @ r) safeHtml s2),
                                      None)
                                else (s2, None)
                            | None \<Rightarrow> (s2, None)))))
          | _ \<Rightarrow> (s1, None)))"

definition handleMessage :: "config \<Rightarrow> source \<Rightarrow> message \<Rightarrow> session \<Rightarrow> session \<times> jsError option" where
  "handleMessage cfg src data s =
     (case src of
        Inner \<Rightarrow>
          if rpcMethod data = JStr CLIENT_READY
          then (flushPendingMessages
                  (case flushTimeout s of
                     Some h \<Rightarrow> (clearTimeout h s)\<lparr>flushTimeout := None\<rparr>
                   | None \<Rightarrow> s),
                None)
          else (s\<lparr>toParent := toParent s @ [data]\<rparr>, None)
      | Parent \<Rightarrow>
          if rpcMethod data = JStr SANDBOX_RESOURCE_READY
          then resourceReady cfg data s
          else (forwardToInner data s, None)
      | Elsewhere \<Rightarrow> (s, None))"

text \<open>\<open>resourceUrl.includes(sub)\<close>.\<close>

fun includesStr :: "string \<Rightarrow> string \<Rightarrow> bool" where
  "includesStr [] sub = (sub = [])"
| "includesStr (c # cs) sub = (take (length sub) (c # cs) = sub \<or> includesStr cs sub)"

text \<open>
  \<open>primeIframeFromCache\<close> runs up to the call of \<open>fetchCachedHtmlFromApi\<close>
  (\<open>primeStart\<close>: it is done, with its result, or it waits for the persistent tier) and
  goes on when the answer is there (\<open>primeResume\<close>). \<open>fetchCachedHtmlFromApi\<close> calls
  \<^verbatim>\<open>fetch\<close> if there is one, and turns a rejection, a status outside 200 to 299 and a body
  that cannot be read into \<^verbatim>\<open>null\<close>.
\<close>

datatype primeStep = PrimeDone bool session | PrimeAwait session

definition fetchCachedHtmlFromApi :: "config \<Rightarrow> fetchOutcome \<Rightarrow> string option" where
  "fetchCachedHtmlFromApi cfg outcome =
     (if \<not> fetchAvailable cfg then None
      else (case outcome of
              FetchRejected \<Rightarrow> None
            | FetchResponse status body \<Rightarrow> if \<not> responseOk status then None else body))"

definition primeStart :: "config \<Rightarrow> session \<Rightarrow> primeStep" where
  "primeStart cfg s =
     (case (resourceUrl cfg, namespacedKey cfg) of
        (Some r, Some key) \<Rightarrow>
          if r = [] then PrimeDone False s
          else if noCacheParam cfg \<or> includesStr r ''cache_buster'' then PrimeDone False s
          else (case getCachedHtml key s of
                  Some inMemory \<Rightarrow>
                    if inMemory \<noteq> []
                    then PrimeDone True (s\<lparr>srcdoc := Some (ensureCspMeta inMemory DEFAULT_CSP False)\<rparr>)
                    else PrimeAwait (if fetchAvailable cfg
                           then s\<lparr>requests := requests s @ [GET (buildCachePath r (Some (cacheNamespace cfg)))]\<rparr>
                           else s)
                | None \<Rightarrow>
                    PrimeAwait (if fetchAvailable cfg
                      then s\<lparr>requests := requests s @ [GET (buildCachePath r (Some (cacheNamespace cfg)))]\<rparr>
                      else s))
      | _ \<Rightarrow> PrimeDone False s)"

definition primeResume :: "config \<Rightarrow> fetchOutcome \<Rightarrow> session \<Rightarrow> bool \<times> session" where
  "primeResume cfg outcome s =
     (case (fetchCachedHtmlFromApi cfg outcome, namespacedKey cfg) of
        (Some cachedHtml, Some key) \<Rightarrow>
          if cachedHtml \<noteq> []
          then (True, (setCachedHtml key cachedHtml s)
                        \<lparr>srcdoc := Some (ensureCspMeta cachedHtml DEFAULT_CSP False)\<rparr>)
          else (False, s)
      | _ \<Rightarrow> (False, s))"

definition primeIframeFromCache :: "config \<Rightarrow> fetchOutcome \<Rightarrow> session \<Rightarrow> bool \<times> session" where
  "primeIframeFromCache cfg outcome s =
     (case primeStart cfg s of
        PrimeDone found s' \<Rightarrow> (found, s')
      | PrimeAwait s' \<Rightarrow> primeResume cfg outcome s')"

text \<open>The events of a session, and a run of them.\<close>

datatype event = Message source message | InnerLoad | Elapse nat

fun step :: "config \<Rightarrow> event \<Rightarrow> session \<Rightarrow> session" where
  "step cfg (Message src data) s = fst (handleMessage cfg src data s)"
| "step cfg InnerLoad s = innerLoad s"
| "step cfg (Elapse dt) s = elapse dt s"

definition run :: "config \<Rightarrow> event list \<Rightarrow> session \<Rightarrow> session" where
  "run cfg evs s = fold (step cfg) evs s"

section \<open>The persistent cache endpoint\<close>

text \<open>
  \<^verbatim>\<open>decodeURIComponent\<close>: the escapes \<^verbatim>\<open>%XX\<close> are read as octets, and the octets from 128 on as
  UTF-8. The result is a list of code units (here any code unit can come out), or
  \<open>None\<close> for the \<^verbatim>\<open>URIError\<close> of a malformed escape or of octets that are no UTF-8.
\<close>

definition hexVal :: "char \<Rightarrow> nat option" where
  "hexVal c =
     (let n = (of_char c :: nat) in
      if 48 \<le> n \<and> n \<le> 57 then Some (n - 48)
      else if 65 \<le> n \<and> n \<le> 70 then Some (n - 55)
      else if 97 \<le> n \<and> n \<le> 102 then Some (n - 87)
      else None)"

datatype token = Lit char | Octet nat

fun tokens :: "string \<Rightarrow> token list option" where
  "tokens [] = Some []"
| "tokens (c # cs) =
     (if c = CHR ''%''
      then (case cs of
              a # b # r \<Rightarrow>
                (case (hexVal a, hexVal b) of
                   (Some x, Some y) \<Rightarrow> map_option ((#) (Octet (16 * x + y))) (tokens r)
                 | _ \<Rightarrow> None)
            | _ \<Rightarrow> None)
      else map_option ((#) (Lit c)) (tokens cs))"

text \<open>The number of octets of the sequence that the octet \<open>b\<close> starts: the number of its
  leading one bits, which must be 2, 3 or 4.\<close>

definition seqLength :: "nat \<Rightarrow> nat" where
  "seqLength b =
     (if 192 \<le> b \<and> b < 224 then 2
      else if 224 \<le> b \<and> b < 240 then 3
      else if 240 \<le> b \<and> b < 248 then 4
      else 0)"

fun isContinuation :: "token \<Rightarrow> bool" where
  "isContinuation (Octet b) = (128 \<le> b \<and> b < 192)"
| "isContinuation (Lit c) = False"

fun octetOf :: "token \<Rightarrow> nat" where
  "octetOf (Octet b) = b"
| "octetOf (Lit c) = of_char c"

text \<open>The \<open>k\<close> octets that go on a sequence: each an escape, with 10 as its highest bits.\<close>

definition continuation :: "nat \<Rightarrow> token list \<Rightarrow> nat list option" where
  "continuation k ts =
     (if length ts < k \<or> \<not> list_all isContinuation (take k ts) then None
      else Some (map octetOf (take k ts)))"

text \<open>The code point of a sequence of a first octet and its continuation octets; \<open>None\<close>
  when the sequence is longer than the code point needs, or the code point is a
  surrogate or beyond \<^verbatim>\<open>U+10FFFF\<close>.\<close>

definition codePoint :: "nat \<Rightarrow> nat list \<Rightarrow> nat option" where
  "codePoint b bs =
     (let n = Suc (length bs);
          first = (if n = 2 then b - 192 else if n = 3 then b - 224 else b - 240);
          cp = foldl (\<lambda>acc c. acc * 64 + (c - 128)) first bs;
          least = (if n = 2 then 128 else if n = 3 then 2048 else 65536)
      in if cp < least \<or> 1114111 < cp \<or> (55296 \<le> cp \<and> cp \<le> 57343) then None else Some cp)"

definition utf16 :: "nat \<Rightarrow> nat list" where
  "utf16 cp =
     (if cp < 65536 then [cp]
      else [55296 + (cp - 65536) div 1024, 56320 + (cp - 65536) mod 1024])"

function decodeTokens :: "token list \<Rightarrow> nat list option" where
  "decodeTokens [] = Some []"
| "decodeTokens (Lit c # ts) = map_option ((#) (of_char c)) (decodeTokens ts)"
| "decodeTokens (Octet b # ts) =
     (if b < 128 then map_option ((#) b) (decodeTokens ts)
      else if seqLength b = 0 then None
      else (case continuation (seqLength b - 1) ts of
              None \<Rightarrow> None
            | Some bs \<Rightarrow>
                (case codePoint b bs of
                   None \<Rightarrow> None
                 | Some cp \<Rightarrow>
                     map_option ((@) (utf16 cp)) (decodeTokens (drop (seqLength b - 1) ts)))))"
  by pat_completeness auto
termination
  by (relation "measure length") auto

definition decodeURIComponent :: "string \<Rightarrow> nat list option" where
  "decodeURIComponent s = (case tokens s of None \<Rightarrow> None | Some ts \<Rightarrow> decodeTokens ts)"

text \<open>\<open>s.split('/')\<close>, and the last of the segments that is not empty among the last
  two: \<open>segments.pop() || segments.pop() || null\<close>.\<close>

fun splitOn :: "char \<Rightarrow> string \<Rightarrow> string list" where
  "splitOn sep [] = [[]]"
| "splitOn sep (c # cs) =
     (if c = sep then [] # splitOn sep cs
      else (case splitOn sep cs of
              seg # segs \<Rightarrow> (c # seg) # segs
            | [] \<Rightarrow> [[c]]))"

definition rawSegment :: "string \<Rightarrow> string option" where
  "rawSegment pathname =
     (case rev (splitOn CHR ''/'' pathname) of
        [] \<Rightarrow> None
      | a # segs \<Rightarrow>
          if a \<noteq> [] then Some a
          else (case segs of
                  [] \<Rightarrow> None
                | b # _ \<Rightarrow> if b \<noteq> [] then Some b else None))"

text \<open>
  A request, as far as the handler reads it: origin and path of its URL, its method, its
  \<^verbatim>\<open>content-type\<close> header, its body (\<open>None\<close> when it has none) and what \<^verbatim>\<open>req.json()\<close>
  makes of that body: a syntax error, a value without a string as \<^verbatim>\<open>html\<close>, or a value with
  one. A response is its status, the headers the handler gives it and its body.
\<close>

datatype jsonBody = JsonError | JsonNoHtml | JsonHtml string

record request =
  reqOrigin :: string
  reqPathname :: string
  reqMethod :: string
  reqContentType :: "string option"
  reqBody :: "string option"
  reqJson :: jsonBody

record response =
  respStatus :: nat
  respHeaders :: "(string \<times> string) list"
  respBody :: string

type_synonym cacheStore = "string \<rightharpoonup> response"

definition getCacheKey :: "request \<Rightarrow> nat list option \<times> string" where
  "getCacheKey req =
     (let raw = rawSegment (reqPathname req);
          cacheKey =
            (case raw of
               None \<Rightarrow> None
             | Some seg \<Rightarrow>
                 (case decodeURIComponent seg of
                    Some key \<Rightarrow> Some key
                  | None \<Rightarrow> Some (map of_char seg)));
          cacheUrl = reqOrigin req @ ''/api/cache/''
             @ (case raw of Some seg \<Rightarrow> encodeURIComponent seg | None \<Rightarrow> [])
      in (cacheKey, cacheUrl))"

text \<open>The cache is the map of the fallback of \<open>getCache\<close>; the Cache API of the platform
  is taken to keep what is put into it.\<close>

definition readFromCache :: "cacheStore \<Rightarrow> string \<Rightarrow> response option" where
  "readFromCache st cacheUrl = st cacheUrl"

definition htmlResponse :: "string \<Rightarrow> response" where
  "htmlResponse html =
     \<lparr> respStatus = 200,
       respHeaders = [(''Content-Type'', ''text/html; charset=utf-8''),
                  (''Cache-Control'', ''public, max-age=0, s-maxage=3600, stale-while-revalidate=86400'')],
       respBody = html \<rparr>"

definition writeToCache :: "cacheStore \<Rightarrow> string \<Rightarrow> string \<Rightarrow> response \<times> cacheStore" where
  "writeToCache st cacheUrl html = (htmlResponse html, st(cacheUrl \<mapsto> htmlResponse html))"

definition MISSING_CACHE_KEY :: string where
  \<open>MISSING_CACHE_KEY = ''{"ok":false,"error":"Missing cache key"}''\<close>

definition MISSING_HTML_BODY :: string where
  \<open>MISSING_HTML_BODY = ''{"ok":false,"error":"Missing HTML body"}''\<close>

definition OK_TRUE :: string where
  \<open>OK_TRUE = ''{"ok":true}''\<close>

definition jsonResponse :: "nat \<Rightarrow> string \<Rightarrow> response" where
  "jsonResponse code text =
     \<lparr> respStatus = code, respHeaders = [(''Content-Type'', ''application/json'')], respBody = text \<rparr>"

text \<open>
  The html of a POST. \<open>req.json()\<close> uses the body up, so the \<open>req.text()\<close> that follows a
  body without a string as \<^verbatim>\<open>html\<close> throws, unless the request has no body at all.
\<close>

definition postedHtml :: "request \<Rightarrow> jsError + string option" where
  "postedHtml req =
     (let contentType = (case reqContentType req of Some ct \<Rightarrow> ct | None \<Rightarrow> []);
          text = (case reqBody req of Some b \<Rightarrow> if b \<noteq> [] then Some b else None | None \<Rightarrow> None)
      in if includesStr contentType ''application/json''
         then (case reqBody req of
                 None \<Rightarrow> Inr None
               | Some b \<Rightarrow>
                   (case reqJson req of
                      JsonHtml h \<Rightarrow> Inr (Some h)
                    | _ \<Rightarrow> Inl TypeError))
         else Inr text)"

definition handler :: "cacheStore \<Rightarrow> request \<Rightarrow> jsError + response \<times> cacheStore" where
  "handler st req =
     (case getCacheKey req of
        (cacheKey, cacheUrl) \<Rightarrow>
          if cacheKey = None \<or> cacheKey = Some []
          then Inr (jsonResponse 400 MISSING_CACHE_KEY, st)
          else if reqMethod req = ''GET''
          then (case readFromCache st cacheUrl of
                  None \<Rightarrow> Inr (\<lparr> respStatus = 404, respHeaders = [], respBody = ''Not Found'' \<rparr>, st)
                | Some cached \<Rightarrow> Inr (cached, st))
          else if reqMethod req = ''POST''
          then (case postedHtml req of
                  Inl e \<Rightarrow> Inl e
                | Inr None \<Rightarrow> Inr (jsonResponse 400 MISSING_HTML_BODY, st)
                | Inr (Some html) \<Rightarrow>
                    if html = []
                    then Inr (jsonResponse 400 MISSING_HTML_BODY, st)
                    else Inr (jsonResponse 200 OK_TRUE, snd (writeToCache st cacheUrl html)))
          else Inr (\<lparr> respStatus = 405, respHeaders = [(''Allow'', ''GET, POST'')],
                      respBody = ''Method '' @ reqMethod req @ '' Not Allowed'' \<rparr>, st))"

text \<open>The stores that requests to the handler can leave behind.\<close>

inductive reachable :: "cacheStore \<Rightarrow> bool" where
  reachable_empty: "reachable Map.empty"
| reachable_step: "reachable st \<Longrightarrow> handler st req = Inr (resp, st') \<Longrightarrow> reachable st'"

section \<open>Example inputs\<close>

text \<open>A configuration, a message the host sends to the widget, the widget's ready signal
  and a \<^verbatim>\<open>sandbox-resource-ready\<close> message with the four fields given.\<close>

definition exampleConfig :: config where
  "exampleConfig = \<lparr> flowId = Some ''f1'', resourceUrl = Some ''ui://app/widget'',
     noCacheParam = False, fetchAvailable = True \<rparr>"

definition hostMessage :: "nat \<Rightarrow> message" where
  "hostMessage n = \<lparr> rpcMethod = JStr ''ui/notifications/tool-input'', paramsHtml = JUndefined,
     paramsSandbox = JUndefined, paramsResource = JUndefined, paramsCsp = JUndefined,
     payload = n \<rparr>"

definition clientReadyMessage :: message where
  "clientReadyMessage = \<lparr> rpcMethod = JStr CLIENT_READY, paramsHtml = JUndefined,
     paramsSandbox = JUndefined, paramsResource = JUndefined, paramsCsp = JUndefined,
     payload = 0 \<rparr>"

definition resourceReadyMessage :: "jsval \<Rightarrow> jsval \<Rightarrow> jsval \<Rightarrow> jsval \<Rightarrow> message" where
  "resourceReadyMessage h sb r c = \<lparr> rpcMethod = JStr SANDBOX_RESOURCE_READY, paramsHtml = h,
     paramsSandbox = sb, paramsResource = r, paramsCsp = c, payload = 0 \<rparr>"

text \<open>A GET request, and a POST request with the HTML as its text.\<close>

definition getRequest :: "string \<Rightarrow> string \<Rightarrow> request" where
  "getRequest origin pathname =
     \<lparr> reqOrigin = origin, reqPathname = pathname, reqMethod = ''GET'', reqContentType = None,
       reqBody = None, reqJson = JsonError \<rparr>"

definition postRequest :: "string \<Rightarrow> string \<Rightarrow> string \<Rightarrow> request" where
  "postRequest origin pathname html =
     \<lparr> reqOrigin = origin, reqPathname = pathname, reqMethod = ''POST'',
       reqContentType = Some ''text/html; charset=utf-8'', reqBody = Some html, reqJson = JsonError \<rparr>"

section \<open>Notions used in the proofs\<close>

text \<open>What the matcher decides, stated without the search: \<open>mp re p\<close> holds when the
  expression \<open>re\<close> can be matched against exactly the string \<open>p\<close>.\<close>

inductive mp :: "item list \<Rightarrow> string \<Rightarrow> bool" where
  mp_Nil: "mp [] []"
| mp_One: "ok a c \<Longrightarrow> mp r p \<Longrightarrow> mp (One a # r) (c # p)"
| mp_Star0: "mp r p \<Longrightarrow> mp (Star a # r) p"
| mp_StarS: "ok a c \<Longrightarrow> mp (Star a # r) p \<Longrightarrow> mp (Star a # r) (c # p)"
| mp_Plus: "ok a c \<Longrightarrow> mp (Star a # r) p \<Longrightarrow> mp (Plus a # r) (c # p)"


text \<open>The atom of an item, and the expressions none of whose items accepts the closing
  bracket \<^verbatim>\<open>>\<close>.\<close>

fun atomOf :: "item \<Rightarrow> atom" where
  "atomOf (One a) = a" | "atomOf (Star a) = a" | "atomOf (Plus a) = a"

definition noGt :: "item list \<Rightarrow> bool" where
  "noGt items = (\<forall>it \<in> set items. \<not> ok (atomOf it) CHR ''>'')"




text \<open>The fixed start of the tag that \<open>metaTag\<close> builds.\<close>

definition metaPrefix :: string where
  "metaPrefix = ''<meta http-equiv='' @ [CHR 0x22] @ ''Content-Security-Policy'' @ [CHR 0x22]
       @ '' content='' @ [CHR 0x22]"

text \<open>The messages of the host that a run of events hands on to the widget: those that are
  not \<^verbatim>\<open>sandbox-resource-ready\<close>, in the order of their arrival.\<close>

definition relayed :: "event list \<Rightarrow> message list" where
  "relayed evs =
     concat (map (\<lambda>e. case e of
                          Message Parent data \<Rightarrow>
                            if rpcMethod data = JStr SANDBOX_RESOURCE_READY then [] else [data]
                        | _ \<Rightarrow> []) evs)"



text \<open>
  The open tag of the \<^verbatim>\<open>head\<close> or \<^verbatim>\<open>html\<close> element of a document, as HTML has it. The
  tag stands behind nothing but white space, comments, declarations and processing
  instructions (\<^verbatim>\<open><!\<close> or \<^verbatim>\<open><?\<close> up to the next \<^verbatim>\<open>>\<close>, the doctype among them) and, for
  \<^verbatim>\<open>head\<close> (the flag \<open>h\<close>), one \<^verbatim>\<open>html\<close> open tag: \<open>prologue\<close> reads that text, keeping
  track of being inside a comment, a declaration, a tag or a quoted attribute value of
  the tag. The name of the tag ends where \<^verbatim>\<open>head\<close> or \<^verbatim>\<open>html\<close> ends (\<open>nameEnd\<close>: white
  space, \<^verbatim>\<open>/\<close> or the end of the tag follows), and the quotes behind the name come in
  pairs, so that the first \<^verbatim>\<open>>\<close> behind the name is the end of the tag.
  \<open>openTag h pre attrs\<close> says this of a tag with the text \<open>pre\<close> in front of it and
  \<open>attrs\<close> between its name and its \<^verbatim>\<open>>\<close>.
\<close>

definition htmlSpace :: "char \<Rightarrow> bool" where
  "htmlSpace c = (c \<in> set [CHR 0x09, CHR 0x0A, CHR 0x0C, CHR 0x0D, CHR 0x20])"

definition nameEnd :: "string \<Rightarrow> bool" where
  "nameEnd s = (case s of [] \<Rightarrow> True | c # _ \<Rightarrow> htmlSpace c \<or> c = CHR ''/'' \<or> c = CHR ''>'')"




text \<open>The tokens that \<open>decodeURIComponent\<close> reads in an encoded character.\<close>

definition encoded :: "char \<Rightarrow> token list" where
  "encoded c =
     (if unreserved c then [Lit c]
      else if (of_char c :: nat) < 128 then [Octet (of_char c)]
      else [Octet (192 + of_char c div 64), Octet (128 + of_char c mod 64)])"


section \<open>The matcher and the replacement patterns\<close>

lemma isDigit_gt [simp]: "\<not> isDigit CHR ''>''"
  by (simp add: isDigit_def)

lemma oneDigit_snd [simp]: "snd (oneDigit caps d) = 1"
  by (simp add: oneDigit_def)

lemma dollarPattern_consumed:
  "set (take (snd (dollarPattern m pre post caps t)) t) \<subseteq> {c. c \<noteq> CHR ''>''}"
proof (cases t)
  case Nil
  then show ?thesis by simp
next
  case (Cons d r)
  show ?thesis
  proof (cases "d = CHR ''$'' \<or> d = CHR ''&'' \<or> d = CHR 0x60 \<or> d = CHR 0x27")
    case True
    then show ?thesis using Cons by (auto simp: dollarPattern_def)
  next
    case False
    note nd = this
    show ?thesis
    proof (cases "isDigit d")
      case False
      then show ?thesis using Cons nd by (simp add: dollarPattern_def)
    next
      case True
      then have dg: "d \<noteq> CHR ''>''" by auto
      show ?thesis
      proof (cases r)
        case Nil
        then show ?thesis using Cons nd True dg by (simp add: dollarPattern_def)
      next
        case (Cons e r')
        show ?thesis
        proof (cases "isDigit e \<and> 10 * digitVal d + digitVal e \<le> length caps")
          case True
          then have "e \<noteq> CHR ''>''" by auto
          then show ?thesis using \<open>t = d # r\<close> Cons nd \<open>isDigit d\<close> dg True
            by (simp add: dollarPattern_def)
        next
          case False
          then show ?thesis using \<open>t = d # r\<close> Cons nd \<open>isDigit d\<close> dg
            by (auto simp: dollarPattern_def)
        qed
      qed
    qed
  qed
qed

lemma dollarPattern_keeps_gt:
  assumes "CHR ''>'' \<in> set t"
  shows "CHR ''>'' \<in> set (drop (snd (dollarPattern m pre post caps t)) t)"
proof -
  have "set t = set (take (snd (dollarPattern m pre post caps t)) t) \<union> set (drop (snd (dollarPattern m pre post caps t)) t)"
    by (metis append_take_drop_id set_append)
  then show ?thesis using assms dollarPattern_consumed[of m pre post caps t] by blast
qed

lemma getSubstitution_keeps_gt:
  "CHR ''>'' \<in> set t \<Longrightarrow> CHR ''>'' \<in> set (getSubstitution m pre post caps t)"
proof (induction m pre post caps t rule: getSubstitution.induct)
  case (2 m pre post caps c t)
  show ?case
  proof (cases "c = CHR ''$''")
    case True
    obtain out k where d: "(out, k) = dollarPattern m pre post caps t" by (metis surj_pair)
    from True "2.prems" have "CHR ''>'' \<in> set t" by auto
    then have "CHR ''>'' \<in> set (drop k t)"
      using dollarPattern_keeps_gt[of t m pre post caps] d by (metis snd_conv)
    then have "CHR ''>'' \<in> set (getSubstitution m pre post caps (drop k t))"
      using "2.IH"(1)[OF True d] by simp
    then show ?thesis using True d[symmetric] by simp
  next
    case False
    then show ?thesis using 2 by auto
  qed
qed simp

lemma matchItems_complete: "mp re p \<Longrightarrow> matchItems re (p @ t) \<noteq> None"
proof (induction rule: mp.induct)
  case (mp_Star0 r p a)
  then show ?case by (cases "p @ t") (auto simp: orElse_def split: option.splits)
qed (auto simp: orElse_def split: option.splits)

lemma mp_lit: "mp r p \<Longrightarrow> mp (lit l @ r) (l @ p)"
  by (induction l) (auto simp: lit_def intro: mp.intros)

lemma mp_Star_all: "\<forall>c \<in> set xs. ok a c \<Longrightarrow> mp r p \<Longrightarrow> mp (Star a # r) (xs @ p)"
  by (induction xs) (auto intro: mp.intros)

lemma test_here: "matchItems re s \<noteq> None \<Longrightarrow> test re s"
  by (cases s) (auto simp: test_def split: option.splits)

lemma test_Cons: "test re s \<Longrightarrow> test re (c # s)"
  by (auto simp: test_def split: option.splits)

lemma test_append: "test re s \<Longrightarrow> test re (a @ s)"
  by (induction a) (auto intro: test_Cons)

lemma mp_meta:
  assumes "CHR ''>'' \<notin> set w"
  shows "mp cspRegex (metaPrefix @ w @ ''>'')"
proof -
  have 1: "mp [Star NotGt, One (Ci CHR ''>'')] (('' content='' @ [CHR 0x22] @ w) @ ''>'')"
    using assms by (intro mp_Star_all) (auto intro!: mp.intros)
  have 2: "mp (lit ''Content-Security-Policy'' @ [One Quote] @ [Star NotGt, One (Ci CHR ''>'')])
             (''Content-Security-Policy'' @ [CHR 0x22] @ '' content='' @ [CHR 0x22] @ w @ ''>'')"
    using 1 by (intro mp_lit) (auto intro!: mp.intros)
  have 3: "mp (lit ''http-equiv='' @ [One Quote] @ lit ''Content-Security-Policy'' @ [One Quote] @ [Star NotGt, One (Ci CHR ''>'')])
             (''http-equiv='' @ [CHR 0x22] @ ''Content-Security-Policy'' @ [CHR 0x22] @ '' content='' @ [CHR 0x22] @ w @ ''>'')"
    using 2 by (intro mp_lit) (auto intro!: mp.intros)
  have 4: "mp ([Plus NotGt] @ lit ''http-equiv='' @ [One Quote] @ lit ''Content-Security-Policy'' @ [One Quote] @ [Star NotGt, One (Ci CHR ''>'')])
             ('' '' @ ''http-equiv='' @ [CHR 0x22] @ ''Content-Security-Policy'' @ [CHR 0x22] @ '' content='' @ [CHR 0x22] @ w @ ''>'')"
    using 3 by (auto intro!: mp.intros)
  have 5: "mp (lit ''<meta'' @ [Plus NotGt] @ lit ''http-equiv='' @ [One Quote] @ lit ''Content-Security-Policy'' @ [One Quote] @ [Star NotGt, One (Ci CHR ''>'')])
             (''<meta'' @ '' '' @ ''http-equiv='' @ [CHR 0x22] @ ''Content-Security-Policy'' @ [CHR 0x22] @ '' content='' @ [CHR 0x22] @ w @ ''>'')"
    using 4 by (intro mp_lit)
  show ?thesis using 5 by (simp add: cspRegex_def metaPrefix_def)
qed

lemma test_meta:
  assumes "CHR ''>'' \<in> set w"
  shows "test cspRegex (u @ metaPrefix @ w)"
proof -
  obtain w1 w2 where w: "w = w1 @ CHR ''>'' # w2" "CHR ''>'' \<notin> set w1"
    using assms by (meson split_list_first)
  have "matchItems cspRegex ((metaPrefix @ w1 @ ''>'') @ w2) \<noteq> None"
    by (rule matchItems_complete) (rule mp_meta[OF w(2)])
  then have "test cspRegex (metaPrefix @ w)" using w(1) by (intro test_here) simp
  then show ?thesis by (rule test_append)
qed

lemma getSubstitution_literal:
  "CHR ''$'' \<notin> set xs \<Longrightarrow> getSubstitution m pre post caps (xs @ ys) = xs @ getSubstitution m pre post caps ys"
  by (induction xs) auto

lemma metaTag_split: "metaTag csp = metaPrefix @ escapeHtmlAttr csp @ [CHR 0x22] @ ''>''"
  by (simp add: metaTag_def metaPrefix_def)

lemma metaPrefix_no_dollar: "CHR ''$'' \<notin> set metaPrefix"
  by (simp add: metaPrefix_def)

text \<open>The expanded template of either replacement still holds the start of the meta tag and a
  closing bracket behind it.\<close>

lemma getSubstitution_meta:
  assumes "CHR ''$'' \<notin> set a"
  shows "\<exists>u w. getSubstitution m pre post caps (a @ metaTag csp @ b) = u @ metaPrefix @ w \<and> CHR ''>'' \<in> set w"
proof -
  have "getSubstitution m pre post caps (a @ metaTag csp @ b)
      = (a @ metaPrefix) @ getSubstitution m pre post caps (escapeHtmlAttr csp @ [CHR 0x22] @ ''>'' @ b)"
    unfolding metaTag_split using assms metaPrefix_no_dollar
    by (metis (no_types, lifting) Un_iff append.assoc getSubstitution_literal set_append)
  moreover have "CHR ''>'' \<in> set (getSubstitution m pre post caps (escapeHtmlAttr csp @ [CHR 0x22] @ ''>'' @ b))"
    by (rule getSubstitution_keeps_gt) simp
  ultimately show ?thesis by (metis append.assoc)
qed

lemma noGt_simps [simp]:
  "noGt []"
  "noGt (One a # r) = (\<not> ok a CHR ''>'' \<and> noGt r)"
  "noGt (Star a # r) = (\<not> ok a CHR ''>'' \<and> noGt r)"
  "noGt (Plus a # r) = (\<not> ok a CHR ''>'' \<and> noGt r)"
  by (auto simp: noGt_def)

lemma of_char_gt: "(of_char c = (62::nat)) = (c = CHR ''>'')"
  using of_char_eq_iff[of c "CHR ''>''", where ?'a = nat] by simp

lemma canon_gt: "(canon c = 62) = (c = CHR ''>'')"
proof (cases "97 \<le> (of_char c :: nat) \<and> (of_char c :: nat) \<le> 122")
  case True
  then have "c \<noteq> CHR ''>''" by auto
  moreover have "canon c \<noteq> 62" using True by (auto simp: canon_def)
  ultimately show ?thesis by simp
next
  case False
  then have "canon c = of_char c" by (auto simp: canon_def)
  then show ?thesis by (simp add: of_char_gt)
qed

lemma canon_gt_val: "canon CHR ''>'' = 62"
  by (simp add: canon_def)

lemma canon_eq_gt [simp]: "(canon c = canon CHR ''>'') = (c = CHR ''>'')"
  by (simp add: canon_gt canon_gt_val)










lemma test_drop: "test re (drop k s) \<Longrightarrow> test re s"
  by (metis append_take_drop_id test_append)











lemma getSubstitution_tag:
  "getSubstitution m pre post (tagCaptures m) (CHR ''$'' # CHR ''1'' # CHR ''>'' # t)
     = butlast (drop 5 m) @ getSubstitution m pre post (tagCaptures m) (CHR ''>'' # t)"
  by (simp add: dollarPattern_def oneDigit_def isDigit_def digitVal_def tagCaptures_def capture_def)

lemma getSubstitution_head:
  "getSubstitution m pre post (tagCaptures m)
     (CHR ''<'' # CHR ''h'' # CHR ''e'' # CHR ''a'' # CHR ''d'' # CHR ''$'' # CHR ''1'' # CHR ''>'' # t)
     = ''<head'' @ butlast (drop 5 m) @ getSubstitution m pre post (tagCaptures m) (CHR ''>'' # t)"
  using getSubstitution_tag[of m pre post t] by simp

lemma getSubstitution_html:
  "getSubstitution m pre post (tagCaptures m)
     (CHR ''<'' # CHR ''h'' # CHR ''t'' # CHR ''m'' # CHR ''l'' # CHR ''$'' # CHR ''1'' # CHR ''>'' # t)
     = ''<html'' @ butlast (drop 5 m) @ getSubstitution m pre post (tagCaptures m) (CHR ''>'' # t)"
  using getSubstitution_tag[of m pre post t] by simp

lemma test_exec: "test re s \<Longrightarrow> \<exists>i n. exec re s = Some (i, n)"
  by (auto simp: test_def)

lemma metaTag_not_Nil: "metaTag csp \<noteq> []"
  by (simp add: metaTag_def)

lemma nl_no_dollar: "CHR ''$'' \<notin> set nl"
  by (simp add: nl_def)

text \<open>Whatever the injector does to a document without a CSP tag, the result has one.\<close>

lemma injectIntoHead_has_csp: "test cspRegex (injectIntoHead html (metaTag csp))"
proof -
  have lit3: "test cspRegex (''<head>'' @ nl @ metaTag csp @ nl @ ''</head>'' @ nl @ html)"
    using test_meta[of "escapeHtmlAttr csp @ [CHR 0x22] @ ''>'' @ nl @ ''</head>'' @ nl @ html" "''<head>'' @ nl"]
    by (simp add: metaTag_split)
  have rep: "test cspRegex (x @ getSubstitution m pre post caps (CHR ''>'' # nl @ a @ metaTag csp @ b) @ y)"
    if "CHR ''$'' \<notin> set a" for x m pre post caps a b y
  proof -
    have "CHR ''$'' \<notin> set (CHR ''>'' # nl @ a)" using that nl_no_dollar by simp
    from getSubstitution_meta[OF this, of m pre post caps csp b]
    obtain u w where "getSubstitution m pre post caps (CHR ''>'' # nl @ a @ metaTag csp @ b) = u @ metaPrefix @ w"
      "CHR ''>'' \<in> set w" by auto
    then show ?thesis using test_meta[of "w @ y" "x @ u"] by simp
  qed
  show ?thesis
  proof (cases "test headRe html")
    case True
    then obtain i n where e: "exec headRe html = Some (i, n)" using test_exec by blast
    show ?thesis
      using True e rep[of "[]" "take i html @ ''<head'' @ butlast (drop 5 (take n (drop i html)))" _ _ _ _ nl]
      by (simp add: injectIntoHead_def metaTag_not_Nil replaceFirst_def getSubstitution_head del: getSubstitution.simps)
  next
    case False
    show ?thesis
    proof (cases "test htmlRe html")
      case True
      then obtain i n where e: "exec htmlRe html = Some (i, n)" using test_exec by blast
      show ?thesis
        using True False e rep[of "''<head>'' @ nl" "take i html @ ''<html'' @ butlast (drop 5 (take n (drop i html)))" _ _ _ _ "nl @ ''</head>''"]
        by (simp add: injectIntoHead_def metaTag_not_Nil replaceFirst_def getSubstitution_html nl_no_dollar del: getSubstitution.simps)
    next
      case no: False
      then show ?thesis using False lit3 by (simp add: injectIntoHead_def metaTag_not_Nil)
    qed
  qed
qed


text \<open>So does the replacement of an existing tag: what the overwrite mode returns for a
  document and a CSP value that are not empty has a CSP tag, and a later pass without
  overwrite, with any CSP value, returns it unchanged.\<close>

lemma replaceFirst_has_csp:
  assumes "test cspRegex html"
  shows "test cspRegex (replaceFirst cspRegex noCaptures (metaTag csp) html)"
proof -
  obtain i n where e: "exec cspRegex html = Some (i, n)" using assms test_exec by blast
  from getSubstitution_meta[of "[]" "take n (drop i html)" "take i html" "drop (i + n) html"
      "noCaptures (take n (drop i html))" csp "[]"]
  obtain u w where "getSubstitution (take n (drop i html)) (take i html) (drop (i + n) html)
      (noCaptures (take n (drop i html))) (metaTag csp) = u @ metaPrefix @ w" "CHR ''>'' \<in> set w"
    by auto
  then show ?thesis
    using e test_meta[of "w @ drop (i + n) html" "take i html @ u"]
    by (simp add: replaceFirst_def)
qed

lemma overwrite_then_keep:
  "csp \<noteq> [] \<Longrightarrow>
     ensureCspMeta (ensureCspMeta html csp True) csp' False = ensureCspMeta html csp True"
  using injectIntoHead_has_csp[of html csp] replaceFirst_has_csp[of html csp]
  by (simp add: ensureCspMeta_def)

section \<open>The shape of a match and of the injected document\<close>

























subsection \<open>The escape, and the place of the injected tag\<close>









section \<open>The queue, the timeout and the cache of the session\<close>

lemma drainQueue_append: "drainQueue queue posted = posted @ queue"
  by (induction queue arbitrary: posted) auto

lemma flush_window:
  "contentWindow s \<Longrightarrow> flushPendingMessages s
     = s\<lparr>innerReady := True, toInner := toInner s @ pendingMessages s, pendingMessages := []\<rparr>"
  by (simp add: flushPendingMessages_def drainQueue_append)

lemma run_Nil: "run cfg [] s = s"
  by (simp add: run_def)

lemma run_Cons: "run cfg (e # evs) s = run cfg evs (step cfg e s)"
  by (simp add: run_def)

lemma run_append: "run cfg (a @ b) s = run cfg b (run cfg a s)"
  by (simp add: run_def)

lemma run_queue:
  "\<not> innerReady s \<Longrightarrow> \<forall>m \<in> set ms. rpcMethod m \<noteq> JStr SANDBOX_RESOURCE_READY \<Longrightarrow>
     run cfg (map (Message Parent) ms) s = s\<lparr>pendingMessages := pendingMessages s @ ms\<rparr>"
proof (induction ms arbitrary: s)
  case Nil
  then show ?case by (simp add: run_Nil)
next
  case (Cons m ms)
  have "step cfg (Message Parent m) s = s\<lparr>pendingMessages := pendingMessages s @ [m]\<rparr>"
    using Cons.prems by (simp add: handleMessage_def forwardToInner_def)
  then show ?case using Cons by (simp add: run_Cons)
qed

lemma run_forward:
  "innerReady s \<Longrightarrow> contentWindow s \<Longrightarrow> \<forall>m \<in> set ms. rpcMethod m \<noteq> JStr SANDBOX_RESOURCE_READY \<Longrightarrow>
     run cfg (map (Message Parent) ms) s = s\<lparr>toInner := toInner s @ ms\<rparr>"
proof (induction ms arbitrary: s)
  case Nil
  then show ?case by (simp add: run_Nil)
next
  case (Cons m ms)
  have "step cfg (Message Parent m) s = s\<lparr>toInner := toInner s @ [m]\<rparr>"
    using Cons.prems by (simp add: handleMessage_def forwardToInner_def)
  then show ?case using Cons by (simp add: run_Cons)
qed

lemma client_ready:
  assumes "contentWindow s" "rpcMethod ready = JStr CLIENT_READY"
  shows "toInner (step cfg (Message Inner ready) s) = toInner s @ pendingMessages s"
    and "pendingMessages (step cfg (Message Inner ready) s) = []"
    and "innerReady (step cfg (Message Inner ready) s)"
    and "contentWindow (step cfg (Message Inner ready) s)"
  using assms
  by (auto simp: handleMessage_def flushPendingMessages_def drainQueue_append clearTimeout_def
      split: option.splits)

lemma timeoutCallback_idem: "timeoutCallback (timeoutCallback s) = timeoutCallback s"
  by (simp add: timeoutCallback_def flushPendingMessages_def)

lemma fold_timeoutCallback:
  "fold (\<lambda>_. timeoutCallback) due s = (if due = [] then s else timeoutCallback s)"
proof (induction due arbitrary: s)
  case Nil
  then show ?case by simp
next
  case (Cons d due)
  then show ?case by (simp add: timeoutCallback_idem)
qed

lemma timeoutCallback_flush:
  "contentWindow s \<Longrightarrow> \<not> innerReady s \<Longrightarrow>
     timeoutCallback s = s\<lparr>innerReady := True, toInner := toInner s @ pendingMessages s, pendingMessages := []\<rparr>"
  by (simp add: timeoutCallback_def flush_window)

lemma timeoutCallback_ready: "innerReady s \<Longrightarrow> timeoutCallback s = s"
  by (simp add: timeoutCallback_def)

text \<open>When a timeout started by the load listener is due, the queue goes out, once.\<close>

lemma elapse_after_load:
  assumes "contentWindow s" "\<not> innerReady s" "500 \<le> dt"
  shows "toInner (elapse dt (innerLoad s)) = toInner s @ pendingMessages s"
    and "pendingMessages (elapse dt (innerLoad s)) = []"
    and "innerReady (elapse dt (innerLoad s))"
    and "contentWindow (elapse dt (innerLoad s))"
  using assms
  by (simp_all add: elapse_def innerLoad_def Let_def fold_timeoutCallback timeoutCallback_flush)

lemma elapse_ready:
  "innerReady s \<Longrightarrow> elapse dt s
     = s\<lparr>clock := clock s + dt, timers := filter (\<lambda>(h, d). \<not> d \<le> clock s + dt) (timers s)\<rparr>"
  by (simp add: elapse_def Let_def fold_timeoutCallback timeoutCallback_ready)

lemma elapse_before:
  "timers s = [] \<Longrightarrow> dt < 500 \<Longrightarrow>
     elapse dt (innerLoad s) = (innerLoad s)\<lparr>clock := clock s + dt\<rparr>"
  by (simp add: elapse_def innerLoad_def Let_def)








lemma ns_example [simp]: "cacheNamespace exampleConfig = ''f1''"
  by (simp add: cacheNamespace_def exampleConfig_def)

lemma host_not_resource_ready [simp]: "rpcMethod (hostMessage n) \<noteq> JStr SANDBOX_RESOURCE_READY"
  by (simp add: hostMessage_def SANDBOX_RESOURCE_READY_def)

lemma encodeCacheKey_example:
  "encodeCacheKey ''f1::ui://app/widget'' = ''f1%253A%253Aui%253A%252F%252Fapp%252Fwidget''"
  by code_simp

subsection \<open>The order of the relayed messages\<close>

lemma relayed_simps:
  "relayed [] = []"
  "relayed (Message Inner data # evs) = relayed evs"
  "relayed (Message Elsewhere data # evs) = relayed evs"
  "relayed (Message Parent data # evs)
     = (if rpcMethod data = JStr SANDBOX_RESOURCE_READY then [] else [data]) @ relayed evs"
  "relayed (InnerLoad # evs) = relayed evs"
  "relayed (Elapse dt # evs) = relayed evs"
  by (simp_all add: relayed_def)

lemma relayed_append: "relayed (a @ b) = relayed a @ relayed b"
  by (simp add: relayed_def)

text \<open>A document from the host leaves the queue and the messages already posted alone, and
  never sets the ready flag.\<close>

lemma resourceReady_keeps:
  "toInner (fst (resourceReady cfg data s)) = toInner s
   \<and> pendingMessages (fst (resourceReady cfg data s)) = pendingMessages s
   \<and> contentWindow (fst (resourceReady cfg data s)) = contentWindow s
   \<and> (innerReady (fst (resourceReady cfg data s)) \<longrightarrow> innerReady s)"
proof -
  define eff where "eff = (if truthy (paramsCsp data) then paramsCsp data else JStr DEFAULT_CSP)"
  define res where "res = (case paramsResource data of JStr r \<Rightarrow> Some r | _ \<Rightarrow> resourceUrl cfg)"
  consider (a) "\<forall>x. paramsHtml data \<noteq> JStr x"
    | (b) x e where "paramsHtml data = JStr x" "ensureCspMetaAny x eff True = Inl e"
    | (c) x safe where "paramsHtml data = JStr x" "ensureCspMetaAny x eff True = Inr safe"
    by (metis sum.exhaust)
  then show ?thesis
  proof cases
    case a
    then show ?thesis by (cases "paramsHtml data") (simp_all add: resourceReady_def Let_def)
  next
    case b
    then show ?thesis by (simp add: resourceReady_def Let_def eff_def)
  next
    case c
    then show ?thesis
      by (cases res; cases "the res = []")
         (simp_all add: resourceReady_def Let_def eff_def[symmetric] res_def[symmetric]
            persistCachedHtmlToApi_def setCachedHtml_def)
  qed
qed

lemma timeoutCallback_fifo:
  "contentWindow s \<Longrightarrow>
     toInner (timeoutCallback s) @ pendingMessages (timeoutCallback s) = toInner s @ pendingMessages s
   \<and> contentWindow (timeoutCallback s)"
  by (simp add: timeoutCallback_def flushPendingMessages_def drainQueue_append)

text \<open>Whatever happens, the messages posted to the widget followed by the queue are the
  relayed messages of the host in the order of their arrival.\<close>

lemma step_fifo:
  assumes "contentWindow s" "innerReady s \<longrightarrow> pendingMessages s = []"
  shows "toInner (step cfg e s) @ pendingMessages (step cfg e s)
           = toInner s @ pendingMessages s @ relayed [e]
         \<and> contentWindow (step cfg e s)"
proof (cases e)
  case (Message src data)
  show ?thesis
  proof (cases src)
    case Inner
    then show ?thesis using Message assms
      by (auto simp: handleMessage_def flushPendingMessages_def drainQueue_append clearTimeout_def
          relayed_simps split: option.splits)
  next
    case Parent
    then show ?thesis using Message assms resourceReady_keeps[of cfg data s]
      by (auto simp: handleMessage_def forwardToInner_def relayed_simps)
  next
    case Elsewhere
    then show ?thesis using Message assms by (simp add: handleMessage_def relayed_simps)
  qed
next
  case InnerLoad
  then show ?thesis using assms by (simp add: innerLoad_def relayed_simps)
next
  case (Elapse dt)
  let ?s' = "s\<lparr>clock := clock s + dt, timers := filter (\<lambda>(h, d). \<not> d \<le> clock s + dt) (timers s)\<rparr>"
  have w: "contentWindow ?s'" using assms by simp
  have "elapse dt s = ?s' \<or> elapse dt s = timeoutCallback ?s'"
    by (simp add: elapse_def Let_def fold_timeoutCallback)
  then show ?thesis using Elapse timeoutCallback_fifo[OF w] assms(1)
    by (auto simp: relayed_simps)
qed

text \<open>In the ready state the queue is empty, and it stays so.\<close>

lemma step_ready_empty:
  assumes "contentWindow s" "innerReady s \<longrightarrow> pendingMessages s = []"
  shows "innerReady (step cfg e s) \<longrightarrow> pendingMessages (step cfg e s) = []"
proof (cases e)
  case (Message src data)
  show ?thesis
  proof (cases src)
    case Inner
    then show ?thesis using Message assms
      by (auto simp: handleMessage_def flushPendingMessages_def clearTimeout_def split: option.splits)
  next
    case Parent
    show ?thesis
    proof (cases "rpcMethod data = JStr SANDBOX_RESOURCE_READY")
      case True
      show ?thesis using True Parent Message assms resourceReady_keeps[of cfg data s]
        by (auto simp: handleMessage_def)
    next
      case False
      then show ?thesis using Parent Message assms
        by (auto simp: handleMessage_def forwardToInner_def)
    qed
  next
    case Elsewhere
    then show ?thesis using Message assms by (simp add: handleMessage_def)
  qed
next
  case InnerLoad
  then show ?thesis using assms by (simp add: innerLoad_def)
next
  case (Elapse dt)
  let ?s' = "s\<lparr>clock := clock s + dt, timers := filter (\<lambda>(h, d). \<not> d \<le> clock s + dt) (timers s)\<rparr>"
  have "elapse dt s = ?s' \<or> elapse dt s = timeoutCallback ?s'"
    by (simp add: elapse_def Let_def fold_timeoutCallback)
  then show ?thesis using Elapse assms
    by (auto simp: timeoutCallback_def flushPendingMessages_def)
qed

lemma run_ready_empty:
  "contentWindow s \<Longrightarrow> (innerReady s \<longrightarrow> pendingMessages s = []) \<Longrightarrow>
     innerReady (run cfg evs s) \<longrightarrow> pendingMessages (run cfg evs s) = []"
proof (induction evs arbitrary: s)
  case Nil
  then show ?case by (simp add: run_Nil)
next
  case (Cons e evs)
  have "contentWindow (step cfg e s)" using step_fifo[OF Cons.prems] by simp
  moreover have "innerReady (step cfg e s) \<longrightarrow> pendingMessages (step cfg e s) = []"
    using step_ready_empty[OF Cons.prems] .
  ultimately show ?case using Cons.IH by (simp add: run_Cons)
qed

lemma run_fifo:
  "contentWindow s \<Longrightarrow> (innerReady s \<longrightarrow> pendingMessages s = []) \<Longrightarrow>
     toInner (run cfg evs s) @ pendingMessages (run cfg evs s)
       = toInner s @ pendingMessages s @ relayed evs"
proof (induction evs arbitrary: s)
  case Nil
  then show ?case by (simp add: run_Nil relayed_simps)
next
  case (Cons e evs)
  from step_fifo[OF Cons.prems, of cfg e]
  have 1: "toInner (step cfg e s) @ pendingMessages (step cfg e s)
           = toInner s @ pendingMessages s @ relayed [e]" and 2: "contentWindow (step cfg e s)"
    by simp_all
  have 3: "innerReady (step cfg e s) \<longrightarrow> pendingMessages (step cfg e s) = []"
    using step_ready_empty[OF Cons.prems] .
  from Cons.IH[OF 2 3] have "toInner (run cfg evs (step cfg e s)) @ pendingMessages (run cfg evs (step cfg e s))
       = (toInner (step cfg e s) @ pendingMessages (step cfg e s)) @ relayed evs" by simp
  then show ?case unfolding 1 using relayed_append[of "[e]" evs] by (simp add: run_Cons)
qed


section \<open>The key and the store of the endpoint\<close>

text \<open>The decoder on escapes of one, three and four octets, and on malformed input.\<close>

lemma decode_euro: "decodeURIComponent ''%E2%82%AC'' = Some [8364]"
  by (simp add: decodeURIComponent_def hexVal_def seqLength_def codePoint_def utf16_def continuation_def)
lemma decode_ascii: "decodeURIComponent ''f1%3A%3Aui'' = Some (map of_char ''f1::ui'')"
  by (simp add: decodeURIComponent_def hexVal_def seqLength_def codePoint_def utf16_def continuation_def)
lemma decode_surrogates: "decodeURIComponent ''%F0%9F%98%80'' = Some [55357, 56832]"
  by (simp add: decodeURIComponent_def hexVal_def seqLength_def codePoint_def utf16_def continuation_def)
lemma decode_malformed: "decodeURIComponent ''%'' = None" "decodeURIComponent ''%E0%A4%A'' = None"  "decodeURIComponent ''%C0%80'' = None" "decodeURIComponent ''%ED%A0%80'' = None"
  by (simp_all add: decodeURIComponent_def hexVal_def seqLength_def codePoint_def utf16_def continuation_def)

lemma tokens_not_Nil: "tokens (c # cs) = Some ts \<Longrightarrow> ts \<noteq> []"
  by (auto split: if_splits list.splits option.splits)

lemma utf16_not_Nil: "utf16 cp \<noteq> []"
  by (simp add: utf16_def)

lemma decodeTokens_not_Nil: "ts \<noteq> [] \<Longrightarrow> decodeTokens ts \<noteq> Some []"
proof (cases ts)
  case Nil
  assume "ts \<noteq> []"
  with Nil show ?thesis by simp
next
  case (Cons t rest)
  show ?thesis
  proof (cases t)
    case (Lit c)
    then show ?thesis using Cons by auto
  next
    case (Octet b)
    then show ?thesis using Cons utf16_not_Nil
      by (auto split: option.splits)
  qed
qed

text \<open>Decoding a segment that is not empty never gives the empty string.\<close>

lemma decodeURIComponent_not_Nil: "s \<noteq> [] \<Longrightarrow> decodeURIComponent s \<noteq> Some []"
proof (cases s)
  case Nil
  assume "s \<noteq> []"
  with Nil show ?thesis by simp
next
  case (Cons c cs)
  show ?thesis
  proof (cases "tokens s")
    case None
    then show ?thesis by (simp add: decodeURIComponent_def)
  next
    case (Some ts)
    then have "ts \<noteq> []" using Cons tokens_not_Nil by blast
    then show ?thesis using Some decodeTokens_not_Nil by (simp add: decodeURIComponent_def)
  qed
qed

lemma rawSegment_not_Nil: "rawSegment p = Some seg \<Longrightarrow> seg \<noteq> []"
  by (auto simp: rawSegment_def split: list.splits if_splits)

lemma getCacheKey_Some:
  assumes "rawSegment (reqPathname req) = Some seg"
  shows "fst (getCacheKey req) \<noteq> None" "fst (getCacheKey req) \<noteq> Some []"
    "snd (getCacheKey req) = reqOrigin req @ ''/api/cache/'' @ encodeURIComponent seg"
  using assms rawSegment_not_Nil[OF assms] decodeURIComponent_not_Nil[of seg]
  by (auto simp: getCacheKey_def Let_def split: option.splits)

lemma getCacheKey_None:
  "rawSegment (reqPathname req) = None \<Longrightarrow> fst (getCacheKey req) = None"
  by (simp add: getCacheKey_def Let_def)

lemma handler_missing:
  "rawSegment (reqPathname req) = None \<Longrightarrow>
     handler st req = Inr (jsonResponse 400 MISSING_CACHE_KEY, st)"
proof -
  assume a: "rawSegment (reqPathname req) = None"
  obtain k u where g: "getCacheKey req = (k, u)" by (cases "getCacheKey req")
  then have "k = None" using getCacheKey_None[OF a] by simp
  then show ?thesis using g by (simp add: handler_def)
qed

lemma handler_get:
  assumes "rawSegment (reqPathname req) = Some seg" "reqMethod req = ''GET''"
  shows "handler st req =
     (case st (reqOrigin req @ ''/api/cache/'' @ encodeURIComponent seg) of
        None \<Rightarrow> Inr (\<lparr> respStatus = 404, respHeaders = [], respBody = ''Not Found'' \<rparr>, st)
      | Some cached \<Rightarrow> Inr (cached, st))"
proof -
  obtain k u where g: "getCacheKey req = (k, u)" by (cases "getCacheKey req")
  then have "k \<noteq> None" "k \<noteq> Some []"
    "u = reqOrigin req @ ''/api/cache/'' @ encodeURIComponent seg"
    using getCacheKey_Some[OF assms(1)] by simp_all
  then show ?thesis using g assms(2) by (auto simp: handler_def readFromCache_def)
qed

lemma handler_post_text:
  assumes "rawSegment pathname = Some seg" "html \<noteq> []"
  shows "handler st (postRequest origin pathname html)
     = Inr (jsonResponse 200 OK_TRUE,
            st(origin @ ''/api/cache/'' @ encodeURIComponent seg \<mapsto> htmlResponse html))"
proof -
  have p: "postedHtml (postRequest origin pathname html) = Inr (Some html)"
    using assms(2) by (simp add: postedHtml_def postRequest_def)
  have r: "rawSegment (reqPathname (postRequest origin pathname html)) = Some seg"
    using assms(1) by (simp add: postRequest_def)
  have m: "reqMethod (postRequest origin pathname html) = ''POST''"
    "reqOrigin (postRequest origin pathname html) = origin"
    by (simp_all add: postRequest_def)
  obtain k u where g: "getCacheKey (postRequest origin pathname html) = (k, u)"
    by (cases "getCacheKey (postRequest origin pathname html)")
  then have "k \<noteq> None" "k \<noteq> Some []"
    "u = origin @ ''/api/cache/'' @ encodeURIComponent seg"
    using getCacheKey_Some[OF r] m(2) by simp_all
  then show ?thesis using g p m(1) assms(2) by (auto simp: handler_def writeToCache_def)
qed

lemma handler_store:
  assumes "handler st req = Inr (resp, st')"
  shows "st' = st \<or> (\<exists>u h. st' = st(u \<mapsto> htmlResponse h))"
proof -
  obtain k u where g: "getCacheKey req = (k, u)" by (cases "getCacheKey req")
  show ?thesis
  proof (cases "k = None \<or> k = Some []")
    case True
    then show ?thesis using assms g by (simp add: handler_def)
  next
    case False
    note k = this
    show ?thesis
    proof (cases "reqMethod req = ''GET''")
      case True
      then show ?thesis using assms g k
        by (auto simp: handler_def split: option.splits)
    next
      case False
      note ng = this
      show ?thesis
      proof (cases "reqMethod req = ''POST''")
        case True
        then show ?thesis using assms g k ng
          by (auto simp: handler_def writeToCache_def split: sum.splits option.splits if_splits)
      next
        case False
        then show ?thesis using assms g k ng by (auto simp: handler_def)
      qed
    qed
  qed
qed

text \<open>Every entry of a store that the handler has left behind was made by \<open>writeToCache\<close>.\<close>

lemma reachable_entries:
  "reachable st \<Longrightarrow> st u = Some r \<Longrightarrow> \<exists>h. r = htmlResponse h"
proof (induction arbitrary: u r rule: reachable.induct)
  case reachable_empty
  then show ?case by simp
next
  case (reachable_step st req resp st')
  from handler_store[OF reachable_step.hyps(2)] show ?case
  proof
    assume "st' = st"
    then show ?thesis using reachable_step by blast
  next
    assume "\<exists>v h. st' = st(v \<mapsto> htmlResponse h)"
    then obtain v h where "st' = st(v \<mapsto> htmlResponse h)" by blast
    then show ?thesis using reachable_step.IH[of u r] reachable_step.prems
      by (cases "u = v") auto
  qed
qed

subsection \<open>The encoding of the cache key\<close>

text \<open>\<open>decodeURIComponent\<close> undoes \<open>encodeURIComponent\<close>, and an encoded string has no
  \<^verbatim>\<open>/\<close> and no \<^verbatim>\<open>:\<close>.\<close>

lemma hex_all: "\<forall>n \<in> set [0..<16]. hexVal (hexDigit n) = Some n \<and> unreserved (hexDigit n)"
  by code_simp

lemma hexVal_hexDigit: "n < 16 \<Longrightarrow> hexVal (hexDigit n) = Some n"
  using hex_all by simp

lemma unreserved_hexDigit: "n < 16 \<Longrightarrow> unreserved (hexDigit n)"
  using hex_all by simp

lemma unreserved_chars:
  "unreserved c \<Longrightarrow> c \<noteq> CHR ''%'' \<and> c \<noteq> CHR ''/'' \<and> c \<noteq> CHR '':''"
  by (auto simp: unreserved_def)

lemma tokens_percent:
  assumes "b < 256"
  shows "tokens (percent b @ r) = map_option ((#) (Octet b)) (tokens r)"
proof -
  have 1: "b div 16 < 16" "b mod 16 < 16" using assms by simp_all
  have 2: "16 * (b div 16) + b mod 16 = b" by simp
  show ?thesis
    by (simp add: percent_def hexVal_hexDigit[OF 1(1)] hexVal_hexDigit[OF 1(2)] 2)
qed

lemma append_single: "(@) [x] = (#) x"
  by (rule ext) simp

lemma map_option_comp2: "map_option f (map_option g x) = map_option (f \<circ> g) x"
  by (cases x) simp_all

lemma tokens_encodeChar:
  "tokens (encodeChar c @ r) = map_option ((@) (encoded c)) (tokens r)"
proof -
  have c: "(of_char c :: nat) < 256" by (rule nat_of_char_less_256)
  consider (u) "unreserved c" | (a) "\<not> unreserved c" "(of_char c :: nat) < 128"
    | (w) "\<not> unreserved c" "\<not> (of_char c :: nat) < 128" by blast
  then show ?thesis
  proof cases
    case u
    then show ?thesis using unreserved_chars[of c]
      by (simp add: encodeChar_def encoded_def append_single)
  next
    case a
    then show ?thesis using tokens_percent[OF c, of r]
      by (simp add: encodeChar_def encoded_def append_single)
  next
    case w
    have 1: "192 + (of_char c :: nat) div 64 < 256" using c by arith
    have 2: "128 + (of_char c :: nat) mod 64 < 256" by simp
    have f: "(#) (Octet (192 + of_char c div 64)) \<circ> (#) (Octet (128 + of_char c mod 64))
        = (@) [Octet (192 + of_char c div 64), Octet (128 + of_char c mod 64)]"
      by (rule ext) simp
    show ?thesis using w
      by (simp add: encodeChar_def encoded_def tokens_percent[OF 1] tokens_percent[OF 2]
          map_option_comp2 f del: tokens.simps)
  qed
qed

lemma tokens_encode:
  "tokens (encodeURIComponent s @ r) = map_option ((@) (concat (map encoded s))) (tokens r)"
proof (induction s)
  case Nil
  then show ?case by (simp add: encodeURIComponent_def option.map_ident)
next
  case (Cons c s)
  have "tokens (encodeURIComponent (c # s) @ r) = tokens (encodeChar c @ (encodeURIComponent s @ r))"
    by (simp add: encodeURIComponent_def)
  also have "\<dots> = map_option ((@) (encoded c)) (map_option ((@) (concat (map encoded s))) (tokens r))"
    unfolding tokens_encodeChar Cons.IH ..
  also have "\<dots> = map_option ((@) (concat (map encoded (c # s)))) (tokens r)"
    by (cases "tokens r") simp_all
  finally show ?case .
qed

lemma decode_encoded:
  "decodeTokens (encoded c @ ts) = map_option ((#) (of_char c)) (decodeTokens ts)"
proof -
  have c: "(of_char c :: nat) < 256" by (rule nat_of_char_less_256)
  consider (u) "unreserved c" | (a) "\<not> unreserved c" "(of_char c :: nat) < 128"
    | (w) "\<not> unreserved c" "\<not> (of_char c :: nat) < 128" by blast
  then show ?thesis
  proof cases
    case u
    then show ?thesis by (simp add: encoded_def)
  next
    case a
    then show ?thesis by (simp add: encoded_def)
  next
    case w
    define n where "n = (of_char c :: nat)"
    have n: "128 \<le> n" "n < 256" using w c by (simp_all add: n_def)
    have d: "n div 64 = 2 \<or> n div 64 = 3" using n by auto
    have s: "seqLength (192 + n div 64) = 2" using d by (auto simp: seqLength_def)
    have k: "continuation 1 (Octet (128 + n mod 64) # ts) = Some [128 + n mod 64]"
      by (simp add: continuation_def)
    have "(192 + n div 64 - 192) * 64 + (128 + n mod 64 - 128) = n" by simp
    then have p: "codePoint (192 + n div 64) [128 + n mod 64] = Some n"
      using n by (simp add: codePoint_def Let_def)
    have "decodeTokens (Octet (192 + n div 64) # Octet (128 + n mod 64) # ts)
        = map_option ((@) (utf16 n)) (decodeTokens ts)"
      using s k p d by (auto simp: Let_def)
    moreover have "utf16 n = [n]" using n by (simp add: utf16_def)
    moreover have "(@) [n] = (#) n" by (rule ext) simp
    ultimately show ?thesis using w by (simp add: encoded_def n_def)
  qed
qed

lemma decode_encodeds:
  "decodeTokens (concat (map encoded s) @ ts) = map_option ((@) (map of_char s)) (decodeTokens ts)"
proof (induction s)
  case Nil
  then show ?case by (simp add: option.map_ident)
next
  case (Cons c s)
  have "decodeTokens (concat (map encoded (c # s)) @ ts)
      = decodeTokens (encoded c @ (concat (map encoded s) @ ts))" by simp
  also have "\<dots> = map_option ((#) (of_char c)) (map_option ((@) (map of_char s)) (decodeTokens ts))"
    unfolding decode_encoded Cons.IH ..
  also have "\<dots> = map_option ((@) (map of_char (c # s))) (decodeTokens ts)"
    by (cases "decodeTokens ts") simp_all
  finally show ?case .
qed

lemma decode_encode: "decodeURIComponent (encodeURIComponent s) = Some (map of_char s)"
  using tokens_encode[of s "[]"] decode_encodeds[of s "[]"]
  by (simp add: decodeURIComponent_def)

lemma encodeChar_chars: "x \<in> set (encodeChar c) \<Longrightarrow> unreserved x \<or> x = CHR ''%''"
proof -
  have c: "(of_char c :: nat) < 256" by (rule nat_of_char_less_256)
  have p: "x \<in> set (percent b) \<Longrightarrow> unreserved x \<or> x = CHR ''%''" if "b < 256" for b
  proof -
    have "b div 16 < 16" "b mod 16 < 16" using that by simp_all
    then show "x \<in> set (percent b) \<Longrightarrow> unreserved x \<or> x = CHR ''%''"
      using unreserved_hexDigit by (auto simp: percent_def)
  qed
  have 1: "192 + (of_char c :: nat) div 64 < 256" using c by arith
  have 2: "128 + (of_char c :: nat) mod 64 < 256" by simp
  show "x \<in> set (encodeChar c) \<Longrightarrow> unreserved x \<or> x = CHR ''%''"
    using p[OF c] p[OF 1] p[OF 2] by (auto simp: encodeChar_def split: if_splits)
qed

lemma encode_chars: "x \<in> set (encodeURIComponent s) \<Longrightarrow> unreserved x \<or> x = CHR ''%''"
  using encodeChar_chars by (auto simp: encodeURIComponent_def)

lemma encode_safe:
  "CHR ''/'' \<notin> set (encodeURIComponent s) \<and> CHR '':'' \<notin> set (encodeURIComponent s)"
  using encode_chars[of "CHR ''/''" s] encode_chars[of "CHR '':''" s]
    unreserved_chars[of "CHR ''/''"] unreserved_chars[of "CHR '':''"] by auto


section \<open>Properties of the CSP injector\<close>







text \<open>
  The replacement patterns at work. With a \<^verbatim>\<open><head>\<close> or \<^verbatim>\<open><html>\<close> open tag in the document
  the tag goes in through \<^verbatim>\<open>String.prototype.replace\<close>, which reads \<^verbatim>\<open>$$\<close> in the escaped
  policy as one \<^verbatim>\<open>$\<close>: the content of the injected tag is not the escaped policy.
\<close>

lemma dollar_in_policy:
  "ensureCspMeta ''<head></head>'' ''a$$b'' False
     = ''<head>'' @ nl @ metaPrefix @ ''a$b'' @ [CHR 0x22] @ ''>'' @ nl @ ''</head>''
   \<and> metaTag ''a$$b'' = metaPrefix @ ''a$$b'' @ [CHR 0x22] @ ''>''"
  by code_simp

text \<open>
  A match that is no open tag of the element. The \<^verbatim>\<open>head\<close> expression also matches the open
  tag of a \<^verbatim>\<open>header\<close> element; the tag is then placed inside that element, in the body of
  the document, and no \<^verbatim>\<open><head>\<close> element is made.
\<close>

lemma header_taken_for_head:
  "\<not> test cspRegex ''<html><header>x</header></html>''
   \<and> exec headRe ''<html><header>x</header></html>'' = Some (6, 8)
   \<and> \<not> nameEnd ''er''
   \<and> ensureCspMeta ''<html><header>x</header></html>'' ''img-src *'' False
     = ''<html><header>'' @ nl @ metaTag ''img-src *'' @ nl @ ''x</header></html>''"
  by code_simp

text \<open>
  C9. For every document and every CSP value the injector is idempotent in non-overwrite
  mode: the tag it injects is found by the CSP detector on the next pass, so a second
  pass returns its input.
\<close>

theorem C9_idempotent:
  "ensureCspMeta (ensureCspMeta html csp False) csp False = ensureCspMeta html csp False"
  using injectIntoHead_has_csp[of html csp] by (simp add: ensureCspMeta_def)

text \<open>
  C10. For every CSP value and every overwrite flag the injector returns the empty
  document for the empty document, and for every document it returns the document as it
  is when the CSP value is empty, also with overwrite set.
\<close>

theorem C10_empty_passthrough:
  "ensureCspMeta [] csp overwrite = [] \<and> ensureCspMeta html [] overwrite = html"
  by (simp add: ensureCspMeta_def)

section \<open>Properties of the session\<close>




text \<open>
  C2. While the iframe has its window and the session is not ready, every message from
  the host other than \<^verbatim>\<open>sandbox-resource-ready\<close> is appended to the queue and nothing is
  posted to the widget. With \<^verbatim>\<open>client-ready\<close> from the widget, or when the fallback timeout
  of a load is due, the whole queue is posted to the widget in the order of arrival; the
  messages that arrive afterwards are posted at once, in their order, behind the queue.
\<close>

theorem C2_fifo:
  assumes "contentWindow s" and "\<not> innerReady s"
    and "\<forall>m \<in> set queued. rpcMethod m \<noteq> JStr SANDBOX_RESOURCE_READY"
    and "\<forall>m \<in> set later. rpcMethod m \<noteq> JStr SANDBOX_RESOURCE_READY"
    and "rpcMethod ready = JStr CLIENT_READY"
  shows "run cfg (map (Message Parent) queued) s = s\<lparr>pendingMessages := pendingMessages s @ queued\<rparr>
    \<and> toInner (run cfg (map (Message Parent) queued @ [Message Inner ready]) s)
        = toInner s @ pendingMessages s @ queued
    \<and> toInner (run cfg (map (Message Parent) queued @ [InnerLoad, Elapse 500]) s)
        = toInner s @ pendingMessages s @ queued
    \<and> toInner (run cfg (map (Message Parent) queued @ [Message Inner ready]
                          @ map (Message Parent) later) s)
        = toInner s @ pendingMessages s @ queued @ later
    \<and> pendingMessages (run cfg (map (Message Parent) queued @ [Message Inner ready]
                          @ map (Message Parent) later) s) = []
    \<and> toInner (run cfg (map (Message Parent) queued @ [InnerLoad, Elapse 500]
                          @ map (Message Parent) later) s)
        = toInner s @ pendingMessages s @ queued @ later
    \<and> pendingMessages (run cfg (map (Message Parent) queued @ [InnerLoad, Elapse 500]
                          @ map (Message Parent) later) s) = []"
proof -
  let ?q = "s\<lparr>pendingMessages := pendingMessages s @ queued\<rparr>"
  have q: "run cfg (map (Message Parent) queued) s = ?q"
    using assms(2,3) by (rule run_queue)
  have qw: "contentWindow ?q" "\<not> innerReady ?q" using assms(1,2) by simp_all
  let ?c = "step cfg (Message Inner ready) ?q"
  have c: "toInner ?c = toInner s @ pendingMessages s @ queued" "pendingMessages ?c = []"
    "innerReady ?c" "contentWindow ?c"
    using client_ready[OF qw(1) assms(5), of cfg] by simp_all
  let ?e = "elapse 500 (innerLoad ?q)"
  have e: "toInner ?e = toInner s @ pendingMessages s @ queued" "pendingMessages ?e = []"
    "innerReady ?e" "contentWindow ?e"
    using elapse_after_load[OF qw, of 500] by simp_all
  have lc: "run cfg (map (Message Parent) later) ?c = ?c\<lparr>toInner := toInner ?c @ later\<rparr>"
    using c(3,4) assms(4) by (rule run_forward)
  have le: "run cfg (map (Message Parent) later) ?e = ?e\<lparr>toInner := toInner ?e @ later\<rparr>"
    using e(3,4) assms(4) by (rule run_forward)
  show ?thesis using q c e lc le by (simp add: run_append run_Cons run_Nil)
qed

theorem C2_fifo_witness:
  "contentWindow initialSession \<and> \<not> innerReady initialSession
   \<and> rpcMethod clientReadyMessage = JStr CLIENT_READY
   \<and> toInner (run exampleConfig (map (Message Parent) [hostMessage 1, hostMessage 2]) initialSession) = []
   \<and> pendingMessages (run exampleConfig (map (Message Parent) [hostMessage 1, hostMessage 2]) initialSession)
        = [hostMessage 1, hostMessage 2]
   \<and> toInner (run exampleConfig (map (Message Parent) [hostMessage 1, hostMessage 2]
          @ [Message Inner clientReadyMessage] @ map (Message Parent) [hostMessage 3]) initialSession)
        = [hostMessage 1, hostMessage 2, hostMessage 3]
   \<and> toInner (run exampleConfig (map (Message Parent) [hostMessage 1, hostMessage 2]
          @ [InnerLoad, Elapse 500] @ map (Message Parent) [hostMessage 3]) initialSession)
        = [hostMessage 1, hostMessage 2, hostMessage 3]"
proof -
  have 1: "contentWindow initialSession" and 2: "\<not> innerReady initialSession"
    by (simp_all add: initialSession_def)
  have 3: "\<forall>m \<in> set [hostMessage 1, hostMessage 2]. rpcMethod m \<noteq> JStr SANDBOX_RESOURCE_READY"
    and 4: "\<forall>m \<in> set [hostMessage 3]. rpcMethod m \<noteq> JStr SANDBOX_RESOURCE_READY"
    by simp_all
  have 5: "rpcMethod clientReadyMessage = JStr CLIENT_READY" by (simp add: clientReadyMessage_def)
  have p: "toInner initialSession = []" "pendingMessages initialSession = []"
    by (simp_all add: initialSession_def)
  note t = C2_fifo[OF 1 2 3 4 5, of exampleConfig]
  show ?thesis using 1 2 5 t p by simp
qed



text \<open>
  C6, as amended. For a session with a resource identifier that is not empty, caching on
  and \<^verbatim>\<open>fetch\<close> at hand. An entry of the memory tier that is not the empty string is used
  without a request and without a change of the cache, whatever the persistent tier would
  answer. With no entry, or with the empty string as the entry, a GET goes to
  \<^verbatim>\<open>/api/cache/\<close> followed by the namespaced key \<open>namespace::resource\<close> encoded twice with
  \<open>encodeURIComponent\<close>. A body that is not empty with a status from 200 to 299 is stored
  in the memory tier and used. A rejected request, any other status, a body that cannot
  be read and an empty body end the read with nothing found, the cache as it was, and
  nothing is thrown. The encoded key has no \<^verbatim>\<open>/\<close> and no \<^verbatim>\<open>:\<close>, and decoding it twice gives the
  namespaced key back. (The page runs the read for a resource that is no http(s) URL.)
\<close>

theorem C6_cache_read:
  assumes "resourceUrl cfg = Some r" and "r \<noteq> []" and "\<not> noCacheParam cfg"
    and "\<not> includesStr r ''cache_buster''" and "fetchAvailable cfg"
  shows
   "(htmlCache s (cacheNamespace cfg @ ''::'' @ r) = Some v \<and> v \<noteq> [] \<longrightarrow>
        primeIframeFromCache cfg outcome s
          = (True, s\<lparr>srcdoc := Some (ensureCspMeta v DEFAULT_CSP False)\<rparr>))
  \<and> (htmlCache s (cacheNamespace cfg @ ''::'' @ r) = None
        \<or> htmlCache s (cacheNamespace cfg @ ''::'' @ r) = Some [] \<longrightarrow>
        primeStart cfg s
          = PrimeAwait (s\<lparr>requests := requests s
               @ [GET (''/api/cache/''
                    @ encodeURIComponent (encodeURIComponent (cacheNamespace cfg @ ''::'' @ r)))]\<rparr>))
  \<and> ((htmlCache s (cacheNamespace cfg @ ''::'' @ r) = None
        \<or> htmlCache s (cacheNamespace cfg @ ''::'' @ r) = Some [])
      \<and> responseOk status \<and> body \<noteq> [] \<longrightarrow>
        primeIframeFromCache cfg (FetchResponse status (Some body)) s
          = (True, s\<lparr>requests := requests s
               @ [GET (''/api/cache/''
                    @ encodeURIComponent (encodeURIComponent (cacheNamespace cfg @ ''::'' @ r)))],
                      htmlCache := (htmlCache s)(cacheNamespace cfg @ ''::'' @ r \<mapsto> body),
                      srcdoc := Some (ensureCspMeta body DEFAULT_CSP False)\<rparr>))
  \<and> ((htmlCache s (cacheNamespace cfg @ ''::'' @ r) = None
        \<or> htmlCache s (cacheNamespace cfg @ ''::'' @ r) = Some [])
      \<and> (outcome = FetchRejected \<or> outcome = FetchResponse status None
          \<or> outcome = FetchResponse status (Some [])
          \<or> (\<exists>b. outcome = FetchResponse status b \<and> \<not> responseOk status)) \<longrightarrow>
        primeIframeFromCache cfg outcome s
          = (False, s\<lparr>requests := requests s
               @ [GET (''/api/cache/''
                    @ encodeURIComponent (encodeURIComponent (cacheNamespace cfg @ ''::'' @ r)))]\<rparr>))
  \<and> CHR ''/'' \<notin> set (encodeURIComponent (encodeURIComponent (cacheNamespace cfg @ ''::'' @ r)))
  \<and> CHR '':'' \<notin> set (encodeURIComponent (encodeURIComponent (cacheNamespace cfg @ ''::'' @ r)))
  \<and> decodeURIComponent (encodeURIComponent (encodeURIComponent (cacheNamespace cfg @ ''::'' @ r)))
       = Some (map of_char (encodeURIComponent (cacheNamespace cfg @ ''::'' @ r)))
  \<and> decodeURIComponent (encodeURIComponent (cacheNamespace cfg @ ''::'' @ r))
       = Some (map of_char (cacheNamespace cfg @ ''::'' @ r))"
proof -
  let ?key = "cacheNamespace cfg @ ''::'' @ r"
  let ?get = "GET (''/api/cache/'' @ encodeURIComponent (encodeURIComponent ?key))"
  have ns: "cacheNamespace cfg \<noteq> []"
    by (simp add: cacheNamespace_def split: option.splits)
  have key: "namespacedKey cfg = Some ?key" using assms(1,2) by (simp add: namespacedKey_def)
  have path: "buildCachePath r (Some (cacheNamespace cfg))
                = ''/api/cache/'' @ encodeURIComponent (encodeURIComponent ?key)"
    using ns by (simp add: buildCachePath_def CACHE_ENDPOINT_BASE_def encodeCacheKey_def)
  have hit: "primeStart cfg s = PrimeDone True (s\<lparr>srcdoc := Some (ensureCspMeta v DEFAULT_CSP False)\<rparr>)"
    if "htmlCache s ?key = Some v" "v \<noteq> []" for v
    using that assms key by (simp add: primeStart_def getCachedHtml_def)
  have miss: "primeStart cfg s = PrimeAwait (s\<lparr>requests := requests s @ [?get]\<rparr>)"
    if "htmlCache s ?key = None \<or> htmlCache s ?key = Some []"
    using that assms key path by (auto simp: primeStart_def getCachedHtml_def)
  show ?thesis
  proof (intro conjI impI)
    assume "htmlCache s ?key = Some v \<and> v \<noteq> []"
    then show "primeIframeFromCache cfg outcome s
          = (True, s\<lparr>srcdoc := Some (ensureCspMeta v DEFAULT_CSP False)\<rparr>)"
      using hit[of v] by (simp add: primeIframeFromCache_def)
  next
    assume "htmlCache s ?key = None \<or> htmlCache s ?key = Some []"
    then show "primeStart cfg s = PrimeAwait (s\<lparr>requests := requests s @ [?get]\<rparr>)"
      by (rule miss)
  next
    assume a: "(htmlCache s ?key = None \<or> htmlCache s ?key = Some [])
      \<and> responseOk status \<and> body \<noteq> []"
    then show "primeIframeFromCache cfg (FetchResponse status (Some body)) s
          = (True, s\<lparr>requests := requests s @ [?get],
                      htmlCache := (htmlCache s)(?key \<mapsto> body),
                      srcdoc := Some (ensureCspMeta body DEFAULT_CSP False)\<rparr>)"
      using miss assms(5) key
      by (simp add: primeIframeFromCache_def primeResume_def fetchCachedHtmlFromApi_def setCachedHtml_def)
  next
    assume a: "(htmlCache s ?key = None \<or> htmlCache s ?key = Some [])
      \<and> (outcome = FetchRejected \<or> outcome = FetchResponse status None
          \<or> outcome = FetchResponse status (Some [])
          \<or> (\<exists>b. outcome = FetchResponse status b \<and> \<not> responseOk status))"
    then have "fetchCachedHtmlFromApi cfg outcome = None \<or> fetchCachedHtmlFromApi cfg outcome = Some []"
      by (auto simp: fetchCachedHtmlFromApi_def)
    then show "primeIframeFromCache cfg outcome s = (False, s\<lparr>requests := requests s @ [?get]\<rparr>)"
      using miss a key by (auto simp: primeIframeFromCache_def primeResume_def)
  next
    show "CHR ''/'' \<notin> set (encodeURIComponent (encodeURIComponent ?key))"
      using encode_safe by simp
  next
    show "CHR '':'' \<notin> set (encodeURIComponent (encodeURIComponent ?key))"
      using encode_safe by simp
  next
    show "decodeURIComponent (encodeURIComponent (encodeURIComponent ?key))
       = Some (map of_char (encodeURIComponent ?key))" by (rule decode_encode)
  next
    show "decodeURIComponent (encodeURIComponent ?key) = Some (map of_char ?key)"
      by (rule decode_encode)
  qed
qed

theorem C6_cache_read_witness:
  "resourceUrl exampleConfig = Some ''ui://app/widget'' \<and> \<not> noCacheParam exampleConfig
   \<and> \<not> includesStr ''ui://app/widget'' ''cache_buster'' \<and> fetchAvailable exampleConfig
   \<and> primeIframeFromCache exampleConfig FetchRejected
        (initialSession\<lparr>htmlCache := [''f1::ui://app/widget'' \<mapsto> ''<p>old</p>'']\<rparr>)
       = (True, initialSession\<lparr>htmlCache := [''f1::ui://app/widget'' \<mapsto> ''<p>old</p>''],
                                srcdoc := Some (ensureCspMeta ''<p>old</p>'' DEFAULT_CSP False)\<rparr>)
   \<and> primeStart exampleConfig initialSession
       = PrimeAwait (initialSession\<lparr>requests :=
           [GET ''/api/cache/f1%253A%253Aui%253A%252F%252Fapp%252Fwidget'']\<rparr>)
   \<and> primeIframeFromCache exampleConfig (FetchResponse 200 (Some ''<p>new</p>'')) initialSession
       = (True, initialSession\<lparr>requests :=
                    [GET ''/api/cache/f1%253A%253Aui%253A%252F%252Fapp%252Fwidget''],
                  htmlCache := [''f1::ui://app/widget'' \<mapsto> ''<p>new</p>''],
                  srcdoc := Some (ensureCspMeta ''<p>new</p>'' DEFAULT_CSP False)\<rparr>)
   \<and> primeIframeFromCache exampleConfig FetchRejected initialSession
       = (False, initialSession\<lparr>requests :=
                    [GET ''/api/cache/f1%253A%253Aui%253A%252F%252Fapp%252Fwidget'']\<rparr>)
   \<and> primeIframeFromCache exampleConfig (FetchResponse 200 (Some [])) initialSession
       = (False, initialSession\<lparr>requests :=
                    [GET ''/api/cache/f1%253A%253Aui%253A%252F%252Fapp%252Fwidget'']\<rparr>)
   \<and> primeIframeFromCache exampleConfig (FetchResponse 404 (Some ''Not Found'')) initialSession
       = (False, initialSession\<lparr>requests :=
                    [GET ''/api/cache/f1%253A%253Aui%253A%252F%252Fapp%252Fwidget'']\<rparr>)
   \<and> decodeURIComponent ''f1%253A%253Aui%253A%252F%252Fapp%252Fwidget''
       = Some (map of_char ''f1%3A%3Aui%3A%2F%2Fapp%2Fwidget'')
   \<and> decodeURIComponent ''f1%3A%3Aui%3A%2F%2Fapp%2Fwidget'' = Some (map of_char ''f1::ui://app/widget'')"
proof -
  let ?s1 = "initialSession\<lparr>htmlCache := [''f1::ui://app/widget'' \<mapsto> ''<p>old</p>'']\<rparr>"
  have 1: "resourceUrl exampleConfig = Some ''ui://app/widget''" and 2: "''ui://app/widget'' \<noteq> []"
    and 3: "\<not> noCacheParam exampleConfig" and 4: "\<not> includesStr ''ui://app/widget'' ''cache_buster''"
    and 5: "fetchAvailable exampleConfig"
    by (simp_all add: exampleConfig_def)
  have e: "htmlCache initialSession = Map.empty" "requests initialSession = []"
    "htmlCache ?s1 ''f1::ui://app/widget'' = Some ''<p>old</p>''"
    "responseOk 200" "\<not> responseOk 404"
    by (simp_all add: initialSession_def responseOk_def)
  have k: "cacheNamespace exampleConfig @ ''::'' @ ''ui://app/widget'' = ''f1::ui://app/widget''"
    by simp
  have x: "encodeURIComponent ''f1::ui://app/widget'' = ''f1%3A%3Aui%3A%2F%2Fapp%2Fwidget''"
    by code_simp
  have y: "encodeURIComponent ''f1%3A%3Aui%3A%2F%2Fapp%2Fwidget''
             = ''f1%253A%253Aui%253A%252F%252Fapp%252Fwidget''"
    by code_simp
  let ?get = "GET ''/api/cache/f1%253A%253Aui%253A%252F%252Fapp%252Fwidget''"
  note a = C6_cache_read[OF 1 2 3 4 5, of ?s1 "''<p>old</p>''" FetchRejected 200 "''x''",
      unfolded k x y, THEN conjunct1]
  note t = C6_cache_read[OF 1 2 3 4 5, of initialSession "''x''" _ 200 "''<p>new</p>''",
      unfolded k x y]
  have a': "primeIframeFromCache exampleConfig FetchRejected ?s1
       = (True, ?s1\<lparr>srcdoc := Some (ensureCspMeta ''<p>old</p>'' DEFAULT_CSP False)\<rparr>)"
    using a e(3) by simp
  have b1: "primeStart exampleConfig initialSession = PrimeAwait (initialSession\<lparr>requests := [?get]\<rparr>)"
    using t[of FetchRejected, THEN conjunct2, THEN conjunct1] e(1,2) by simp
  have b2: "primeIframeFromCache exampleConfig (FetchResponse 200 (Some ''<p>new</p>'')) initialSession
       = (True, initialSession\<lparr>requests := [?get],
                  htmlCache := [''f1::ui://app/widget'' \<mapsto> ''<p>new</p>''],
                  srcdoc := Some (ensureCspMeta ''<p>new</p>'' DEFAULT_CSP False)\<rparr>)"
    using t[of FetchRejected, THEN conjunct2, THEN conjunct2, THEN conjunct1] e(1,2,4) by simp
  have m1: "primeIframeFromCache exampleConfig FetchRejected initialSession
       = (False, initialSession\<lparr>requests := [?get]\<rparr>)"
    using t[of FetchRejected, THEN conjunct2, THEN conjunct2, THEN conjunct2, THEN conjunct1]
      e(1,2) by simp
  have m2: "primeIframeFromCache exampleConfig (FetchResponse 200 (Some [])) initialSession
       = (False, initialSession\<lparr>requests := [?get]\<rparr>)"
    using t[of "FetchResponse 200 (Some [])", THEN conjunct2, THEN conjunct2, THEN conjunct2,
        THEN conjunct1] e(1,2) by simp
  have n: "primeIframeFromCache exampleConfig (FetchResponse 404 (Some ''Not Found'')) initialSession
       = (False, initialSession\<lparr>requests := [?get]\<rparr>)"
    using C6_cache_read[OF 1 2 3 4 5, of initialSession "''x''" "FetchResponse 404 (Some ''Not Found'')"
        404 "''x''", unfolded k x y,
        THEN conjunct2, THEN conjunct2, THEN conjunct2, THEN conjunct1] e(1,2,5) by simp
  note r = t[of FetchRejected, THEN conjunct2, THEN conjunct2, THEN conjunct2, THEN conjunct2]
  show ?thesis
  proof (intro conjI)
    show "primeIframeFromCache exampleConfig FetchRejected ?s1
       = (True, initialSession\<lparr>htmlCache := [''f1::ui://app/widget'' \<mapsto> ''<p>old</p>''],
                                srcdoc := Some (ensureCspMeta ''<p>old</p>'' DEFAULT_CSP False)\<rparr>)"
      using a' by simp
    show "decodeURIComponent ''f1%253A%253Aui%253A%252F%252Fapp%252Fwidget''
       = Some (map of_char ''f1%3A%3Aui%3A%2F%2Fapp%2Fwidget'')"
      using r by blast
    show "decodeURIComponent ''f1%3A%3Aui%3A%2F%2Fapp%2Fwidget'' = Some (map of_char ''f1::ui://app/widget'')"
      using r by blast
  qed (use 1 3 4 5 b1 b2 n m1 m2 in simp_all)
qed

text \<open>
  The empty document from the host. \<open>handleMessage\<close> stores it in the memory tier under the
  namespaced key (and posts it to the endpoint). The read that follows finds the entry,
  takes it for none, sends a GET to the persistent tier and writes the answer over the
  entry.
\<close>

theorem C6_counterexample:
  "resourceUrl exampleConfig = Some ''ui://app/widget'' \<and> \<not> noCacheParam exampleConfig
   \<and> fetchAvailable exampleConfig
   \<and> htmlCache (fst (handleMessage exampleConfig Parent
         (resourceReadyMessage (JStr []) JUndefined JUndefined JUndefined) initialSession))
       ''f1::ui://app/widget'' = Some []
   \<and> requests (fst (handleMessage exampleConfig Parent
         (resourceReadyMessage (JStr []) JUndefined JUndefined JUndefined) initialSession))
       = [POST ''/api/cache/f1%253A%253Aui%253A%252F%252Fapp%252Fwidget'' []]
   \<and> requests (snd (primeIframeFromCache exampleConfig (FetchResponse 200 (Some ''<p>new</p>''))
         (fst (handleMessage exampleConfig Parent
           (resourceReadyMessage (JStr []) JUndefined JUndefined JUndefined) initialSession))))
       = [POST ''/api/cache/f1%253A%253Aui%253A%252F%252Fapp%252Fwidget'' [],
          GET ''/api/cache/f1%253A%253Aui%253A%252F%252Fapp%252Fwidget'']
   \<and> htmlCache (snd (primeIframeFromCache exampleConfig (FetchResponse 200 (Some ''<p>new</p>''))
         (fst (handleMessage exampleConfig Parent
           (resourceReadyMessage (JStr []) JUndefined JUndefined JUndefined) initialSession))))
       ''f1::ui://app/widget'' = Some ''<p>new</p>''"
  by code_simp

text \<open>
  C7. While the iframe has its window and the session is not ready: the timeout started
  by the load does nothing before 500 ms are over; once they are, the queue is posted to
  the widget, once, and the session is ready. An expiry in the ready state changes
  nothing, so neither a second run of the callback nor the timeout of a later load posts
  anything again.
\<close>

theorem C7_fallback_once:
  assumes "contentWindow s" and "\<not> innerReady s"
  shows "(timers s = [] \<and> dt < 500 \<longrightarrow>
            toInner (elapse dt (innerLoad s)) = toInner s
          \<and> pendingMessages (elapse dt (innerLoad s)) = pendingMessages s
          \<and> \<not> innerReady (elapse dt (innerLoad s)))
    \<and> (500 \<le> dt \<longrightarrow>
            toInner (elapse dt (innerLoad s)) = toInner s @ pendingMessages s
          \<and> pendingMessages (elapse dt (innerLoad s)) = []
          \<and> innerReady (elapse dt (innerLoad s))
          \<and> timeoutCallback (elapse dt (innerLoad s)) = elapse dt (innerLoad s)
          \<and> toInner (elapse dt' (innerLoad (elapse dt (innerLoad s)))) = toInner s @ pendingMessages s
          \<and> pendingMessages (elapse dt' (innerLoad (elapse dt (innerLoad s)))) = [])
    \<and> (innerReady t \<longrightarrow> timeoutCallback t = t)"
proof (intro conjI impI)
  assume a: "timers s = [] \<and> dt < 500"
  then have "elapse dt (innerLoad s) = (innerLoad s)\<lparr>clock := clock s + dt\<rparr>"
    by (simp add: elapse_before)
  then show "toInner (elapse dt (innerLoad s)) = toInner s"
    "pendingMessages (elapse dt (innerLoad s)) = pendingMessages s"
    "\<not> innerReady (elapse dt (innerLoad s))"
    using assms(2) by (simp_all add: innerLoad_def)
next
  assume a: "500 \<le> dt"
  let ?e = "elapse dt (innerLoad s)"
  note e = elapse_after_load[OF assms a]
  show "toInner ?e = toInner s @ pendingMessages s" by (fact e(1))
  show "pendingMessages ?e = []" by (fact e(2))
  show "innerReady ?e" by (fact e(3))
  show "timeoutCallback ?e = ?e" using e(3) by (rule timeoutCallback_ready)
  have r: "innerReady (innerLoad ?e)" using e(3) by (simp add: innerLoad_def)
  note eq = elapse_ready[OF r, of dt']
  show "toInner (elapse dt' (innerLoad ?e)) = toInner s @ pendingMessages s"
    unfolding eq using e(1) by (simp add: innerLoad_def)
  show "pendingMessages (elapse dt' (innerLoad ?e)) = []"
    unfolding eq using e(2) by (simp add: innerLoad_def)
next
  assume "innerReady t"
  then show "timeoutCallback t = t" by (rule timeoutCallback_ready)
qed

theorem C7_fallback_once_witness:
  "contentWindow (initialSession\<lparr>pendingMessages := [hostMessage 1, hostMessage 2]\<rparr>)
   \<and> \<not> innerReady (initialSession\<lparr>pendingMessages := [hostMessage 1, hostMessage 2]\<rparr>)
   \<and> toInner (elapse 499 (innerLoad (initialSession\<lparr>pendingMessages := [hostMessage 1, hostMessage 2]\<rparr>))) = []
   \<and> toInner (elapse 500 (innerLoad (initialSession\<lparr>pendingMessages := [hostMessage 1, hostMessage 2]\<rparr>)))
        = [hostMessage 1, hostMessage 2]
   \<and> toInner (elapse 500 (innerLoad (elapse 500
          (innerLoad (initialSession\<lparr>pendingMessages := [hostMessage 1, hostMessage 2]\<rparr>)))))
        = [hostMessage 1, hostMessage 2]
   \<and> innerReady (initialSession\<lparr>innerReady := True\<rparr>)
   \<and> timeoutCallback (initialSession\<lparr>innerReady := True\<rparr>) = initialSession\<lparr>innerReady := True\<rparr>"
proof -
  let ?s = "initialSession\<lparr>pendingMessages := [hostMessage 1, hostMessage 2]\<rparr>"
  have 1: "contentWindow ?s" and 2: "\<not> innerReady ?s" by (simp_all add: initialSession_def)
  have p: "toInner ?s = []" "pendingMessages ?s = [hostMessage 1, hostMessage 2]" "timers ?s = []"
    by (simp_all add: initialSession_def)
  note a = C7_fallback_once[OF 1 2, of 499 500 "initialSession\<lparr>innerReady := True\<rparr>"]
  note b = C7_fallback_once[OF 1 2, of 500 500 "initialSession\<lparr>innerReady := True\<rparr>"]
  show ?thesis using 1 2 p a b by simp
qed

section \<open>Properties of the endpoint\<close>

text \<open>
  C8, as amended. For every GET request to the endpoint and every store the handler can
  have left behind: when the path has a key segment and the store has an entry for it,
  the response is that entry, with status 200, the content type
  \<^verbatim>\<open>text/html; charset=utf-8\<close> and the cache control
  \<^verbatim>\<open>public, max-age=0, s-maxage=3600, stale-while-revalidate=86400\<close>, and its body is the
  HTML that was posted under the key; when there is no entry, the response is 404; when
  the path has no key segment (its last two segments are empty), the response is 400. A
  key segment that cannot be decoded is used as it stands and answered like any other.
\<close>

theorem C8_get:
  assumes "reachable st" and "reqMethod req = ''GET''"
  shows
   "(rawSegment (reqPathname req) = Some seg
      \<and> st (reqOrigin req @ ''/api/cache/'' @ encodeURIComponent seg) = Some cached \<longrightarrow>
        handler st req = Inr (cached, st)
      \<and> respStatus cached = 200
      \<and> respHeaders cached = [(''Content-Type'', ''text/html; charset=utf-8''),
           (''Cache-Control'', ''public, max-age=0, s-maxage=3600, stale-while-revalidate=86400'')])
  \<and> (rawSegment (reqPathname req) = Some seg
      \<and> st (reqOrigin req @ ''/api/cache/'' @ encodeURIComponent seg) = None \<longrightarrow>
        handler st req = Inr (\<lparr> respStatus = 404, respHeaders = [], respBody = ''Not Found'' \<rparr>, st))
  \<and> (rawSegment (reqPathname req) = None \<longrightarrow>
        handler st req = Inr (jsonResponse 400 MISSING_CACHE_KEY, st))
  \<and> (rawSegment pathname = Some seg \<and> html \<noteq> [] \<longrightarrow>
        handler st (postRequest origin pathname html)
          = Inr (jsonResponse 200 OK_TRUE,
                 st(origin @ ''/api/cache/'' @ encodeURIComponent seg \<mapsto> htmlResponse html))
      \<and> handler (st(origin @ ''/api/cache/'' @ encodeURIComponent seg \<mapsto> htmlResponse html))
            (getRequest origin pathname)
          = Inr (htmlResponse html,
                 st(origin @ ''/api/cache/'' @ encodeURIComponent seg \<mapsto> htmlResponse html))
      \<and> respBody (htmlResponse html) = html)"
proof (intro conjI impI)
  assume a: "rawSegment (reqPathname req) = Some seg
      \<and> st (reqOrigin req @ ''/api/cache/'' @ encodeURIComponent seg) = Some cached"
  then show "handler st req = Inr (cached, st)"
    using handler_get[of req seg st] assms(2) by simp
  from a reachable_entries[OF assms(1)] obtain h where "cached = htmlResponse h" by blast
  then show "respStatus cached = 200"
    "respHeaders cached = [(''Content-Type'', ''text/html; charset=utf-8''),
           (''Cache-Control'', ''public, max-age=0, s-maxage=3600, stale-while-revalidate=86400'')]"
    by (simp_all add: htmlResponse_def)
next
  assume "rawSegment (reqPathname req) = Some seg
      \<and> st (reqOrigin req @ ''/api/cache/'' @ encodeURIComponent seg) = None"
  then show "handler st req = Inr (\<lparr> respStatus = 404, respHeaders = [], respBody = ''Not Found'' \<rparr>, st)"
    using handler_get[of req seg st] assms(2) by simp
next
  assume "rawSegment (reqPathname req) = None"
  then show "handler st req = Inr (jsonResponse 400 MISSING_CACHE_KEY, st)"
    by (rule handler_missing)
next
  assume a: "rawSegment pathname = Some seg \<and> html \<noteq> []"
  then show "handler st (postRequest origin pathname html)
          = Inr (jsonResponse 200 OK_TRUE,
                 st(origin @ ''/api/cache/'' @ encodeURIComponent seg \<mapsto> htmlResponse html))"
    using handler_post_text by blast
  have g: "rawSegment (reqPathname (getRequest origin pathname)) = Some seg"
    "reqMethod (getRequest origin pathname) = ''GET''"
    "reqOrigin (getRequest origin pathname) = origin"
    using a by (simp_all add: getRequest_def)
  show "handler (st(origin @ ''/api/cache/'' @ encodeURIComponent seg \<mapsto> htmlResponse html))
            (getRequest origin pathname)
          = Inr (htmlResponse html,
                 st(origin @ ''/api/cache/'' @ encodeURIComponent seg \<mapsto> htmlResponse html))"
    using handler_get[OF g(1,2)] g(3) by simp
  show "respBody (htmlResponse html) = html" by (simp add: htmlResponse_def)
qed

theorem C8_get_witness:
  "reachable [''https://proxy.test/api/cache/k1'' \<mapsto> htmlResponse ''<p>hi</p>'']
   \<and> reachable Map.empty
   \<and> handler [''https://proxy.test/api/cache/k1'' \<mapsto> htmlResponse ''<p>hi</p>'']
        (getRequest ''https://proxy.test'' ''/api/cache/k1'')
       = Inr (htmlResponse ''<p>hi</p>'', [''https://proxy.test/api/cache/k1'' \<mapsto> htmlResponse ''<p>hi</p>''])
   \<and> respStatus (htmlResponse ''<p>hi</p>'') = 200
   \<and> handler Map.empty (getRequest ''https://proxy.test'' ''/api/cache/k1'')
       = Inr (\<lparr> respStatus = 404, respHeaders = [], respBody = ''Not Found'' \<rparr>, Map.empty)
   \<and> rawSegment ''//'' = None
   \<and> handler Map.empty (getRequest ''https://proxy.test'' ''//'')
       = Inr (jsonResponse 400 MISSING_CACHE_KEY, Map.empty)
   \<and> handler Map.empty (postRequest ''https://proxy.test'' ''/api/cache/k1'' ''<p>hi</p>'')
       = Inr (jsonResponse 200 OK_TRUE, [''https://proxy.test/api/cache/k1'' \<mapsto> htmlResponse ''<p>hi</p>''])"
proof -
  let ?st = "[''https://proxy.test/api/cache/k1'' \<mapsto> htmlResponse ''<p>hi</p>'']"
  let ?get = "getRequest ''https://proxy.test'' ''/api/cache/k1''"
  have r: "rawSegment ''/api/cache/k1'' = Some ''k1''" "rawSegment ''//'' = None"
    by (simp_all add: rawSegment_def)
  have e: "encodeURIComponent ''k1'' = ''k1''"
    by (simp add: encodeURIComponent_def encodeChar_def unreserved_def)
  have g: "reqMethod ?get = ''GET''" "reqPathname ?get = ''/api/cache/k1''"
    "reqOrigin ?get = ''https://proxy.test''"
    "reqMethod (getRequest ''https://proxy.test'' ''//'') = ''GET''"
    "reqPathname (getRequest ''https://proxy.test'' ''//'') = ''//''"
    by (simp_all add: getRequest_def)
  have e0: "reachable Map.empty" by (rule reachable_empty)
  note p = C8_get[OF e0 g(1), of "''k1''" "htmlResponse ''x''" "''/api/cache/k1''" "''<p>hi</p>''"
      "''https://proxy.test''"]
  have post: "handler Map.empty (postRequest ''https://proxy.test'' ''/api/cache/k1'' ''<p>hi</p>'')
       = Inr (jsonResponse 200 OK_TRUE, ?st)"
    using p r e by simp
  have e1: "reachable ?st" using reachable_step[OF e0 post] .
  note q = C8_get[OF e1 g(1), of "''k1''" "htmlResponse ''<p>hi</p>''" "''/api/cache/k1''" "''<p>hi</p>''"
      "''https://proxy.test''"]
  note m = C8_get[OF e0 g(4), of "''k1''" "htmlResponse ''x''" "''/api/cache/k1''" "''<p>hi</p>''"
      "''https://proxy.test''"]
  show ?thesis using e0 e1 post p q m r e g by simp
qed

text \<open>The segment \<^verbatim>\<open>%\<close> cannot be decoded; the request is answered with 404, as for any
  key without an entry.\<close>

theorem C8_counterexample:
  "rawSegment ''/api/cache/%'' = Some ''%'' \<and> decodeURIComponent ''%'' = None
   \<and> handler Map.empty (getRequest ''https://proxy.test'' ''/api/cache/%'')
       = Inr (\<lparr> respStatus = 404, respHeaders = [], respBody = ''Not Found'' \<rparr>, Map.empty)"
proof -
  have r: "rawSegment ''/api/cache/%'' = Some ''%''" by (simp add: rawSegment_def)
  have d: "decodeURIComponent ''%'' = None" by (simp add: decodeURIComponent_def)
  have g: "rawSegment (reqPathname (getRequest ''https://proxy.test'' ''/api/cache/%'')) = Some ''%''"
    "reqMethod (getRequest ''https://proxy.test'' ''/api/cache/%'') = ''GET''"
    using r by (simp_all add: getRequest_def)
  show ?thesis using r d handler_get[OF g, of Map.empty] by simp
qed

end
